theory Spec2Isabelle
  imports Main "HOL-Library.AList" "HOL-Library.Char_ord" "HOL-Library.List_Lexorder"
    "HOL-Library.Multiset"
begin

section \<open>Python strings and lists\<close>

text \<open>
  The program is Python 2 code (the output of \<^verbatim>\<open>subprocess.check_output\<close> is split with a
  \<^verbatim>\<open>str\<close> separator), so a string is a byte string: a \<^typ>\<open>string\<close> of HOL, compared
  byte by byte, and \<^verbatim>\<open>strip()\<close> removes the six ASCII whitespace bytes.
\<close>

datatype py_error = IndexError | TypeError | KeyError | NameError | DatabaseError

text \<open>\<^verbatim>\<open>xs[i]\<close> for a non-negative index: out of range raises IndexError.\<close>

definition py_index :: "'a list \<Rightarrow> nat \<Rightarrow> py_error + 'a" where
  "py_index xs i = (if i < length xs then Inr (xs ! i) else Inl IndexError)"

text \<open>\<^verbatim>\<open>s.split(c)\<close> for a separator of one character: never empty, \<^verbatim>\<open>''.split(c) == ['']\<close>.\<close>

fun split_on :: "char \<Rightarrow> string \<Rightarrow> string list" where
  "split_on c [] = [[]]"
| "split_on c (x # xs) =
     (if x = c then [] # split_on c xs
      else (case split_on c xs of
              [] \<Rightarrow> [[x]]
            | y # ys \<Rightarrow> (x # y) # ys))"

definition is_space :: "char \<Rightarrow> bool" where
  "is_space c = (c \<in> set [CHR '' '', CHR 0x09, CHR 0x0A, CHR 0x0B, CHR 0x0C, CHR 0x0D])"

definition strip :: "string \<Rightarrow> string" where
  "strip s = rev (dropWhile is_space (rev (dropWhile is_space s)))"

text \<open>\<^verbatim>\<open>s.startswith(p)\<close>.\<close>

definition startswith :: "string \<Rightarrow> string \<Rightarrow> bool" where
  "startswith s p = (take (length p) s = p)"

text \<open>\<^verbatim>\<open>k in s\<close> on strings: \<open>k\<close> occurs in \<open>s\<close> as a contiguous substring.\<close>

fun contains :: "string \<Rightarrow> string \<Rightarrow> bool" where
  "contains k [] = (k = [])"
| "contains k (x # xs) = (startswith (x # xs) k \<or> contains k xs)"

section \<open>The Schema Document\<close>

text \<open>
  \<^verbatim>\<open>_format_raw_schema\<close> returns a dict from section name to a list. The list under
  \<^verbatim>\<open>'Columns:'\<close> holds lists of fields, the other lists hold lines; Python gives both the
  same type, so an element is an \<open>entry\<close>. A dict is an association list in insertion
  order: \<^verbatim>\<open>d[k] = v\<close> is \<^const>\<open>AList.update\<close> (in place when the key exists, at the end
  otherwise) and a change of the list stored under \<open>k\<close> is \<^const>\<open>AList.map_entry\<close>. The
  loops change a list only under a key that is in the dict (\<^verbatim>\<open>'Columns:'\<close> is there from the
  start, a section name from the assignment that precedes its loop), so no lookup raises.
  \<^verbatim>\<open>list.sort()\<close> is \<^const>\<open>sort\<close> on the order of Python 2: lists of fields and lines are
  compared lexicographically, and a list is smaller than a string.
\<close>

datatype entry = Fields "string list" | Line string

instantiation entry :: linorder
begin

fun less_eq_entry :: "entry \<Rightarrow> entry \<Rightarrow> bool" where
  "less_eq_entry (Fields a) (Fields b) = (a \<le> b)"
| "less_eq_entry (Fields a) (Line b) = True"
| "less_eq_entry (Line a) (Fields b) = False"
| "less_eq_entry (Line a) (Line b) = (a \<le> b)"

definition less_entry :: "entry \<Rightarrow> entry \<Rightarrow> bool" where
  "less_entry x y = (x \<le> y \<and> \<not> y \<le> x)"

instance
proof
  fix x y z :: entry
  show "(x < y) = (x \<le> y \<and> \<not> y \<le> x)"
    by (simp add: less_entry_def)
  show "x \<le> x"
    by (cases x) simp_all
  show "x \<le> y \<Longrightarrow> y \<le> z \<Longrightarrow> x \<le> z"
    by (cases x; cases y; cases z) auto
  show "x \<le> y \<Longrightarrow> y \<le> x \<Longrightarrow> x = y"
    by (cases x; cases y) auto
  show "x \<le> y \<or> y \<le> x"
    by (cases x; cases y) auto
qed

end

type_synonym schema_doc = "(string \<times> entry list) list"

section \<open>The Schema Text Normalizer\<close>

definition section_title_list :: "string list" where
  "section_title_list =
     [''Indexes:'', ''Foreign-key constraints:'', ''Referenced by:'', ''Triggers:'']"

text \<open>
  \<^verbatim>\<open>item_list = [item.strip() for item in raw_schema.split('\n') if item]\<close>: the test
  \<^verbatim>\<open>if item\<close> is made before the strip, so a line of blanks stays as an empty item.
\<close>

definition split_items :: "string \<Rightarrow> string list" where
  "split_items raw_schema = map strip (filter (\<lambda>item. item \<noteq> []) (split_on CHR 0x0A raw_schema))"

text \<open>
  One header test, \<^verbatim>\<open>if item_list[index].startswith(prefix): index += 1\<close>. The read has
  no bound check, so it can raise IndexError; the result is the index after the test.
\<close>

definition skip_prefix :: "string list \<Rightarrow> string \<Rightarrow> nat \<Rightarrow> py_error + nat" where
  "skip_prefix item_list prefix index =
     (case py_index item_list index of
        Inl e \<Rightarrow> Inl e
      | Inr item \<Rightarrow> Inr (if startswith item prefix then index + 1 else index))"

text \<open>The three header tests in their order, from \<open>index = 0\<close>.\<close>

definition skip_header :: "string list \<Rightarrow> py_error + nat" where
  "skip_header item_list =
     (case skip_prefix item_list ''Table'' 0 of Inl e \<Rightarrow> Inl e | Inr index1 \<Rightarrow>
      case skip_prefix item_list ''Column'' index1 of Inl e \<Rightarrow> Inl e | Inr index2 \<Rightarrow>
      skip_prefix item_list ''---'' index2)"

text \<open>
  The column loop, entered with \<open>item = item_list[index]\<close>. It returns the dict and the
  index at which it stopped.
\<close>

function columns_loop :: "string list \<Rightarrow> nat \<Rightarrow> string \<Rightarrow> schema_doc \<Rightarrow> schema_doc \<times> nat" where
  "columns_loop item_list index item result =
     (if item \<notin> set section_title_list then
        (let result' = AList.map_entry ''Columns:''
                         (\<lambda>v. v @ [Fields (map strip (split_on CHR ''|'' item))]) result;
             index' = index + 1
         in if index' \<ge> length item_list then (result', index')
            else columns_loop item_list index' (item_list ! index') result')
      else (result, index))"
  by pat_completeness auto
termination
  by (relation "measure (\<lambda>(item_list, index, item, result). length item_list - index)") auto

declare columns_loop.simps [simp del]

text \<open>The inner loop over the lines of one section, entered with \<open>item = item_list[index]\<close>.\<close>

function section_loop ::
  "string list \<Rightarrow> string list \<Rightarrow> string \<Rightarrow> nat \<Rightarrow> string \<Rightarrow> schema_doc \<Rightarrow> schema_doc \<times> nat" where
  "section_loop item_list exclued_keywords section index item result =
     (if item \<notin> set section_title_list then
        (let is_excluded = list_ex (\<lambda>keyword. contains keyword item) exclued_keywords;
             result' = (if \<not> is_excluded
                        then AList.map_entry section (\<lambda>v. v @ [Line (strip item)]) result
                        else result);
             index' = index + 1
         in if index' \<ge> length item_list then (result', index')
            else section_loop item_list exclued_keywords section index' (item_list ! index') result')
      else (result, index))"
  by pat_completeness auto
termination
  by (relation "measure (\<lambda>(item_list, excl, section, index, item, result). length item_list - index)")
    auto

declare section_loop.simps [simp del]

lemma section_loop_index:
  "index \<le> snd (section_loop item_list exclued_keywords section index item result)"
proof (induction item_list exclued_keywords "section" index item result rule: section_loop.induct)
  case (1 item_list exclued_keywords sect index item result)
  show ?case
  proof (cases "item \<notin> set section_title_list \<and> \<not> length item_list \<le> index + 1")
    case True
    then have "index + 1 \<le> snd (section_loop item_list exclued_keywords sect index item result)"
      using "1.IH" [OF _ refl refl refl]
      by (subst section_loop.simps) (simp add: Let_def)
    then show ?thesis by simp
  next
    case False
    then show ?thesis
      by (subst section_loop.simps) (auto simp add: Let_def)
  qed
qed

text \<open>
  The loop over the sections. The read \<^verbatim>\<open>item = item_list[index]\<close> that follows the
  title has no bound check: a title on the last line raises IndexError.
\<close>

function sections_loop ::
  "string list \<Rightarrow> string list \<Rightarrow> nat \<Rightarrow> schema_doc \<Rightarrow> py_error + schema_doc" where
  "sections_loop item_list exclued_keywords index result =
     (if index < length item_list then
        (let section = item_list ! index;
             result1 = AList.update section [] result;
             index1 = index + 1
         in case py_index item_list index1 of
              Inl e \<Rightarrow> Inl e
            | Inr item \<Rightarrow>
                (case section_loop item_list exclued_keywords section index1 item result1 of
                   (result2, index2) \<Rightarrow>
                     sections_loop item_list exclued_keywords index2
                       (AList.map_entry section sort result2)))
      else Inr result)"
  by pat_completeness auto
termination
proof (relation "measure (\<lambda>(item_list, excl, index, result). length item_list - index)")
  show "wf (measure (\<lambda>(item_list, excl, index, result). length item_list - index))"
    by simp
next
  fix item_list exclued_keywords :: "string list" and index :: nat and result :: schema_doc
    and sect result1 index1 item result2 index2
  assume lt: "index < length item_list" and i1: "index1 = index + 1"
    and p: "(result2, index2) = section_loop item_list exclued_keywords sect index1 item result1"
  have "index1 \<le> snd (section_loop item_list exclued_keywords sect index1 item result1)"
    by (rule section_loop_index)
  with p [symmetric] i1 have "index < index2" by simp
  with lt show "((item_list, exclued_keywords, index2, AList.map_entry sect sort result2),
                 item_list, exclued_keywords, index, result)
                \<in> measure (\<lambda>(item_list, excl, index, result). length item_list - index)"
    by simp
qed

declare sections_loop.simps [simp del]

text \<open>The body of \<^verbatim>\<open>_format_raw_schema\<close> after the split into items.\<close>

definition format_items :: "string list \<Rightarrow> string list \<Rightarrow> py_error + schema_doc" where
  "format_items item_list exclued_keywords =
     (let result = [(''Columns:'', [])] in
      case skip_header item_list of Inl e \<Rightarrow> Inl e | Inr index \<Rightarrow>
      case py_index item_list index of Inl e \<Rightarrow> Inl e | Inr item \<Rightarrow>
      case columns_loop item_list index item result of (result', index') \<Rightarrow>
        sections_loop item_list exclued_keywords index'
          (AList.map_entry ''Columns:'' sort result'))"

text \<open>\<^verbatim>\<open>if exclued_keywords is None: exclued_keywords = []\<close>.\<close>

definition keyword_list :: "string list option \<Rightarrow> string list" where
  "keyword_list exclued_keywords = (case exclued_keywords of None \<Rightarrow> [] | Some ks \<Rightarrow> ks)"

definition format_raw_schema :: "string \<Rightarrow> string list option \<Rightarrow> py_error + schema_doc" where
  "format_raw_schema raw_schema exclued_keywords =
     format_items (split_items raw_schema) (keyword_list exclued_keywords)"

section \<open>Documents and the extractors\<close>

text \<open>
  A Document is \<^verbatim>\<open>table_data\<close>, an \<^verbatim>\<open>OrderedDict\<close> from a table or sequence name to a
  value: a count, a size, a schema name, or the Schema Document of the table.
\<close>

datatype py_value = PNone | PBool bool | PInt int | PStr string | PSchema schema_doc

type_synonym document = "(string \<times> py_value) list"

text \<open>
  The loop \<^verbatim>\<open>for row in rows: self.table_data[row[i]] = row[j]\<close> that every extractor ends
  with. A row is given here as the pair \<open>(row[i], row[j])\<close> of the two columns the class uses.
\<close>

fun fill_table_data :: "(string \<times> py_value) list \<Rightarrow> document \<Rightarrow> document" where
  "fill_table_data [] data = data"
| "fill_table_data ((name, v) # rows) data = fill_table_data rows (AList.update name v data)"

datatype diff_class =
  DBTableBasicInfoDiff | DBTableRowCountDiff | DBTableSchemaDiff | DBTableSizeDiff
| DBIndexSizeDiff | DBTableTotalSizeDiff | DBSequenceDiff

definition DiffClassMapper :: "(string \<times> diff_class) list" where
  "DiffClassMapper =
     [(''table_count'', DBTableBasicInfoDiff),
      (''table_name'', DBTableBasicInfoDiff),
      (''row_count'', DBTableRowCountDiff),
      (''table_schema'', DBTableSchemaDiff),
      (''table_size'', DBTableSizeDiff),
      (''index_size'', DBIndexSizeDiff),
      (''table_total_size'', DBTableTotalSizeDiff),
      (''sequence'', DBSequenceDiff)]"

definition IGNORE_SCHEMA_SECTIONS :: "string list" where
  "IGNORE_SCHEMA_SECTIONS = [''bucardo'', ''pglogical'']"

text \<open>
  What lies outside the program is a parameter: the error of \<^verbatim>\<open>psycopg2.connect\<close> on a
  dsn (\<open>None\<close> when the connection is made), the rows (or the error message) that the
  statements of a class give on a connection, the text (or the error message) that \<^verbatim>\<open>psql\<close> prints for a table, the functions
  \<^verbatim>\<open>urlparse\<close>, \<^verbatim>\<open>hurry.filesize.size\<close> and \<^verbatim>\<open>'{:,}'.format\<close>, and the library function
  \<^verbatim>\<open>DeepDiff\<close> with the truth value of its result.
\<close>

record 'r world =
  connect :: "string \<Rightarrow> string option"
  fetch_rows :: "diff_class \<Rightarrow> string \<Rightarrow> string + (string \<times> py_value) list"
  describe :: "string \<Rightarrow> string \<Rightarrow> string + string"
  url_to_dsn :: "string \<Rightarrow> string"
  filesize :: "py_value \<Rightarrow> string"
  format_comma :: "py_value \<Rightarrow> string"
  DeepDiff :: "document \<Rightarrow> document \<Rightarrow> 'r"
  truth :: "'r \<Rightarrow> bool"

text \<open>What a run does that can be seen from outside, in order.\<close>

datatype 'r event =
  Connect string
| Print string
| Print_document string document
| Print_items "(string \<times> py_value) list"
| Print_diff 'r

datatype outcome = Returned | SystemExit string | Raised py_error

record db_diff =
  cls :: diff_class
  dsn :: string
  table_data :: document

text \<open>\<^verbatim>\<open>DBDiffBase.__init__\<close>.\<close>

definition init :: "'r world \<Rightarrow> diff_class \<Rightarrow> string \<Rightarrow> db_diff" where
  "init w c d =
     \<lparr>cls = c,
      dsn = (if startswith d ''postgres://'' then url_to_dsn w d else d),
      table_data = []\<rparr>"

text \<open>
  \<^verbatim>\<open>DBDiffBase.create_conn\<close>: the events, and the message of \<^verbatim>\<open>exit\<close> when the connection
  fails.
\<close>

definition create_conn :: "'r world \<Rightarrow> db_diff \<Rightarrow> 'r event list \<times> string option" where
  "create_conn w self =
     (case connect w (dsn self) of
        None \<Rightarrow> ([Connect (dsn self)], None)
      | Some e \<Rightarrow> ([Connect (dsn self), Print (dsn self), Print e],
                   Some ''Unable to connect to the database''))"

text \<open>
  \<^verbatim>\<open>DBTableSchemaDiff._load_table_schema\<close>: the loop over the tables. A failure of
  \<^verbatim>\<open>psql\<close> or of the normalizer leaves the values stored so far and calls \<^verbatim>\<open>exit\<close>.
\<close>

fun load_table_schema ::
  "'r world \<Rightarrow> string \<Rightarrow> string list \<Rightarrow> document \<Rightarrow> document \<times> string option" where
  "load_table_schema w d [] data = (data, None)"
| "load_table_schema w d (table # tables) data =
     (case describe w d table of
        Inl e \<Rightarrow> (data, Some (''Load table schema error, please check:'' @ e))
      | Inr schema \<Rightarrow>
          (case format_raw_schema schema (Some IGNORE_SCHEMA_SECTIONS) of
             Inl e \<Rightarrow> (data, Some ''Load table schema error, please check:'')
           | Inr doc \<Rightarrow> load_table_schema w d tables (AList.update table (PSchema doc) data)))"

text \<open>
  The \<^verbatim>\<open>_load_*\<close> method of a class on an open connection: the table data afterwards, and
  the message of \<^verbatim>\<open>exit\<close> when a statement fails (the text of the error, without the prefix
  of the class).
\<close>

definition load_rows :: "'r world \<Rightarrow> db_diff \<Rightarrow> document \<times> string option" where
  "load_rows w self =
     (case fetch_rows w (cls self) (dsn self) of
        Inl e \<Rightarrow> (table_data self, Some e)
      | Inr rows \<Rightarrow> (fill_table_data rows (table_data self), None))"

text \<open>\<^verbatim>\<open>load\<close>: the events, the object afterwards and the message of \<^verbatim>\<open>exit\<close>, if any.\<close>

definition load :: "'r world \<Rightarrow> db_diff \<Rightarrow> 'r event list \<times> db_diff \<times> string option" where
  "load w self =
     (case create_conn w self of
        (events, Some msg) \<Rightarrow> (events, self, Some msg)
      | (events, None) \<Rightarrow>
          (case load_rows w self of
             (data, Some msg) \<Rightarrow> (events, self\<lparr>table_data := data\<rparr>, Some msg)
           | (data, None) \<Rightarrow>
               if cls self = DBTableSchemaDiff
               then (case load_table_schema w (dsn self) (map fst data) data of
                       (data', exit) \<Rightarrow> (events, self\<lparr>table_data := data'\<rparr>, exit))
               else (events, self\<lparr>table_data := data\<rparr>, None)))"

text \<open>
  \<^verbatim>\<open>DBDiffBase.diff\<close>. The two loads run in two threads on two objects and are joined before
  anything else; they are run here one after the other. An \<^verbatim>\<open>exit\<close> inside a thread ends
  that thread only, so the diff goes on with the table data loaded so far.
\<close>

definition diff :: "'r world \<Rightarrow> db_diff \<Rightarrow> db_diff \<Rightarrow> bool \<Rightarrow> 'r event list \<times> 'r" where
  "diff w self target verbose =
     (case load w self of (events1, self', exit1) \<Rightarrow>
      case load w target of (events2, target', exit2) \<Rightarrow>
      let src_table_data = table_data self';
          target_table_data = table_data target';
          printed = (if verbose
                     then [Print_document ''Source: '' src_table_data, Print [],
                           Print_document ''Target: '' target_table_data]
                     else []);
          diff_result = DeepDiff w src_table_data target_table_data
      in (events1 @ events2 @ printed, diff_result))"


section \<open>The report\<close>

text \<open>\<^verbatim>\<open>a + b\<close> on Python values, as far as \<^verbatim>\<open>sum\<close> needs it: a bool counts as 0 or 1.\<close>

fun py_add :: "py_value \<Rightarrow> py_value \<Rightarrow> py_error + py_value" where
  "py_add (PInt a) (PInt b) = Inr (PInt (a + b))"
| "py_add (PInt a) (PBool b) = Inr (PInt (a + (if b then 1 else 0)))"
| "py_add (PBool a) (PInt b) = Inr (PInt ((if a then 1 else 0) + b))"
| "py_add (PBool a) (PBool b) = Inr (PInt ((if a then 1 else 0) + (if b then 1 else 0)))"
| "py_add (PStr a) (PStr b) = Inr (PStr (a @ b))"
| "py_add a b = Inl TypeError"

fun py_sum_from :: "py_value \<Rightarrow> py_value list \<Rightarrow> py_error + py_value" where
  "py_sum_from acc [] = Inr acc"
| "py_sum_from acc (v # vs) =
     (case py_add acc v of Inl e \<Rightarrow> Inl e | Inr acc' \<Rightarrow> py_sum_from acc' vs)"

text \<open>\<^verbatim>\<open>sum(values)\<close> starts from the integer 0.\<close>

definition py_sum :: "py_value list \<Rightarrow> py_error + py_value" where
  "py_sum vs = py_sum_from (PInt 0) vs"

text \<open>
  \<^verbatim>\<open>s.replace(old, new, count)\<close> for \<open>old\<close> and \<open>new\<close> of one character: at most \<open>count\<close>
  replacements from the left, all of them when \<open>count\<close> is negative.
\<close>

fun replace_count :: "char \<Rightarrow> char \<Rightarrow> int \<Rightarrow> string \<Rightarrow> string" where
  "replace_count old new n [] = []"
| "replace_count old new n (c # cs) =
     (if c = old \<and> n \<noteq> 0 then new # replace_count old new (n - 1) cs
      else c # replace_count old new n cs)"

text \<open>The third argument of \<^verbatim>\<open>replace\<close> must be an integer: anything else is a TypeError.\<close>

definition py_replace :: "string \<Rightarrow> char \<Rightarrow> char \<Rightarrow> py_value \<Rightarrow> py_error + string" where
  "py_replace s old new n =
     (case n of
        PInt i \<Rightarrow> Inr (replace_count old new i s)
      | PBool b \<Rightarrow> Inr (replace_count old new (if b then 1 else 0) s)
      | _ \<Rightarrow> Inl TypeError)"

text \<open>
  \<^verbatim>\<open>template.format(*args)\<close> for a template whose fields are all \<^verbatim>\<open>{}\<close>: a field with no
  argument left is an IndexError.
\<close>

fun py_format :: "string \<Rightarrow> string list \<Rightarrow> py_error + string" where
  "py_format [] args = Inr []"
| "py_format [c] args = Inr [c]"
| "py_format (c # c' # cs) args =
     (if c = CHR ''{'' \<and> c' = CHR ''}''
      then (case args of
              [] \<Rightarrow> Inl IndexError
            | a # as \<Rightarrow> (case py_format cs as of Inl e \<Rightarrow> Inl e | Inr t \<Rightarrow> Inr (a @ t)))
      else (case py_format (c' # cs) args of Inl e \<Rightarrow> Inl e | Inr t \<Rightarrow> Inr (c # t)))"

definition count_format :: "'r world \<Rightarrow> py_value \<Rightarrow> string" where
  "count_format w num = format_comma w num"

text \<open>
  The branch of \<^verbatim>\<open>diff_or_info\<close> without a target, after the load: the summary. The last
  statement is \<^verbatim>\<open>print('Total {}: {}'.format(diff_type.replace('_', ' ', total)))\<close>: the total
  is the third argument of \<^verbatim>\<open>replace\<close>, and \<^verbatim>\<open>format\<close> gets one argument.
\<close>

definition info :: "'r world \<Rightarrow> string \<Rightarrow> bool \<Rightarrow> document \<Rightarrow> 'r event list \<times> outcome" where
  "info w diff_type verbose data =
     (case py_sum (map snd data) of
        Inl e \<Rightarrow> ([], Raised e)
      | Inr total_sum \<Rightarrow>
          (let (total_shown, data') =
                 (if contains ''size'' diff_type
                  then (PStr (filesize w total_sum), map (\<lambda>(k, v). (k, PStr (filesize w v))) data)
                  else if contains ''count'' diff_type
                  then (PStr (count_format w total_sum),
                        map (\<lambda>(k, v). (k, PStr (count_format w v))) data)
                  else (total_sum, data));
               printed = (if verbose then [Print ''Info Result:'', Print_items (rev data')] else [])
           in case py_replace diff_type CHR ''_'' CHR '' '' total_shown of
                Inl e \<Rightarrow> (printed, Raised e)
              | Inr name \<Rightarrow>
                  (case py_format ''Total {}: {}'' [name] of
                     Inl e \<Rightarrow> (printed, Raised e)
                   | Inr line \<Rightarrow> (printed @ [Print line], Returned))))"

text \<open>
  \<^verbatim>\<open>diff_or_info\<close>. \<^verbatim>\<open>if target:\<close> holds for a string that is not empty. With a target
  the two documents are loaded and compared; without one the source is loaded in the main
  thread, where \<^verbatim>\<open>exit\<close> ends the run.
\<close>

definition diff_or_info ::
  "'r world \<Rightarrow> string \<Rightarrow> string option \<Rightarrow> string \<Rightarrow> bool \<Rightarrow> 'r event list \<times> outcome" where
  "diff_or_info w source target diff_type verbose =
     (case map_of DiffClassMapper diff_type of
        None \<Rightarrow> ([], Raised KeyError)
      | Some diff_class \<Rightarrow>
          (let src_db = init w diff_class source in
           if target \<noteq> None \<and> target \<noteq> Some []
           then (let target_db = init w diff_class (the target) in
                 case diff w src_db target_db verbose of
                   (events, diff_result) \<Rightarrow>
                     (events @ [Print ''Diff Result:''] @
                        (if truth w diff_result then [Print_diff diff_result]
                         else [Print ''They are the same.'']),
                      Returned))
           else (case load w src_db of
                   (events, src_db', Some msg) \<Rightarrow> (events, SystemExit msg)
                 | (events, src_db', None) \<Rightarrow>
                     (case info w diff_type verbose (table_data src_db') of
                        (printed, result) \<Rightarrow> (events @ printed, result)))))"

section \<open>Validation and the entry point\<close>

text \<open>The dict of arguments that \<^verbatim>\<open>docopt\<close> returns, one field for each key.\<close>

record arguments =
  arg_type :: py_value
  arg_source :: py_value
  arg_target :: py_value
  arg_version :: py_value
  arg_verbose :: py_value
  arg_help :: py_value

definition diff_types :: "string list" where
  "diff_types =
     [''table_count'', ''table_name'', ''row_count'', ''table_schema'', ''table_size'',
      ''index_size'', ''table_total_size'', ''sequence'']"

fun is_str :: "py_value \<Rightarrow> bool" where
  "is_str (PStr s) = True"
| "is_str v = False"

fun is_bool :: "py_value \<Rightarrow> bool" where
  "is_bool (PBool b) = True"
| "is_bool v = False"

text \<open>
  \<^verbatim>\<open>_validate\<close>: the schema of the six keys. A SchemaError becomes \<^verbatim>\<open>exit\<close> with a message
  (the text of the error that follows it is left out).
\<close>

definition validate :: "arguments \<Rightarrow> string + arguments" where
  "validate args =
     (if (case arg_type args of PStr s \<Rightarrow> s \<in> set diff_types | _ \<Rightarrow> False)
         \<and> (case arg_source args of PStr s \<Rightarrow> length s \<noteq> 0 | _ \<Rightarrow> False)
         \<and> (is_str (arg_target args) \<or> arg_target args = PNone)
         \<and> is_bool (arg_version args)
         \<and> is_bool (arg_verbose args)
         \<and> is_bool (arg_help args)
      then Inr args
      else Inl ''Validation error, please check:'')"

fun str_of :: "py_value \<Rightarrow> string" where
  "str_of (PStr s) = s"
| "str_of v = []"

fun str_option_of :: "py_value \<Rightarrow> string option" where
  "str_option_of (PStr s) = Some s"
| "str_option_of v = None"

fun bool_of :: "py_value \<Rightarrow> bool" where
  "bool_of (PBool b) = b"
| "bool_of v = False"

text \<open>
  \<^verbatim>\<open>main\<close>, from the arguments that \<^verbatim>\<open>docopt\<close> parsed. After the validation the source and the
  type are strings, the target is a string or \<^verbatim>\<open>None\<close> and the verbose flag is a bool.
\<close>

definition main :: "'r world \<Rightarrow> arguments \<Rightarrow> 'r event list \<times> outcome" where
  "main w args =
     (case validate args of
        Inl msg \<Rightarrow> ([], SystemExit msg)
      | Inr args' \<Rightarrow>
          diff_or_info w (str_of (arg_source args')) (str_option_of (arg_target args'))
            (str_of (arg_type args')) (bool_of (arg_verbose args')))"

text \<open>A world for the examples: every connection is made, and the source has two tables.\<close>

definition example_world :: "unit world" where
  "example_world =
     \<lparr>connect = (\<lambda>d. None),
      fetch_rows = (\<lambda>c d. Inr [(''users'', PInt 10), (''orders'', PInt 5)]),
      describe = (\<lambda>d t. Inr []),
      url_to_dsn = (\<lambda>u. u),
      filesize = (\<lambda>v. ''15B''),
      format_comma = (\<lambda>v. ''15''),
      DeepDiff = (\<lambda>a b. ()),
      truth = (\<lambda>r. False)\<rparr>"


section \<open>The helper routines of the extractors\<close>

text \<open>
  The row count and the sequence extractor create a routine on the server, call it in their
  query and drop it. The server knows a routine by its name and the types of its arguments:
  \<^verbatim>\<open>create or replace function f(a text)\<close> defines \<open>f(text)\<close>, and
  \<^verbatim>\<open>drop function if exists f(text, text)\<close> removes \<open>f(text, text)\<close> when it exists and does
  nothing otherwise. A statement is given by what it does to the routines.
\<close>

type_synonym routine = "string \<times> string list"

datatype statement =
  Create_or_replace_function routine
| Drop_function_if_exists routine
| Select_calling routine

definition CREATE_ROW_COUNT_FUNC_SQL :: statement where
  "CREATE_ROW_COUNT_FUNC_SQL = Create_or_replace_function (''count_rows'', [''text'', ''text''])"

definition REMOVE_ROW_COUNT_FUNC_SQL :: statement where
  "REMOVE_ROW_COUNT_FUNC_SQL = Drop_function_if_exists (''count_rows'', [''text'', ''text''])"

definition TABLE_INFO_WITH_ROW_COUNT_SQL :: statement where
  "TABLE_INFO_WITH_ROW_COUNT_SQL = Select_calling (''count_rows'', [''text'', ''text''])"

definition CREATE_GET_SEQUENCE_LAST_VALUE_FUNC_SQL :: statement where
  "CREATE_GET_SEQUENCE_LAST_VALUE_FUNC_SQL =
     Create_or_replace_function (''get_seq_last_value'', [''text''])"

definition REMOVE_GET_SEQUENCE_LAST_VALUE_FUNC_SQL :: statement where
  "REMOVE_GET_SEQUENCE_LAST_VALUE_FUNC_SQL =
     Drop_function_if_exists (''get_seq_last_value'', [''text'', ''text''])"

definition SEQUENCE_COUNT_SQL :: statement where
  "SEQUENCE_COUNT_SQL = Select_calling (''get_seq_last_value'', [''text''])"

text \<open>
  \<^verbatim>\<open>cur.execute(statement)\<close> on the routines of the server. A statement for which \<open>fails\<close>
  holds raises an error of the database, and so does a query that calls a routine which
  does not exist.
\<close>

definition execute :: "(statement \<Rightarrow> bool) \<Rightarrow> statement \<Rightarrow> routine list \<Rightarrow> py_error + routine list" where
  "execute fails s routines =
     (if fails s then Inl DatabaseError
      else (case s of
              Create_or_replace_function r \<Rightarrow> Inr (r # removeAll r routines)
            | Drop_function_if_exists r \<Rightarrow> Inr (removeAll r routines)
            | Select_calling r \<Rightarrow> if r \<in> set routines then Inr routines else Inl DatabaseError))"

text \<open>
  The body that \<^verbatim>\<open>_load_row_count\<close> and \<^verbatim>\<open>_load_sequence_count\<close> share, up to their three
  statements and their message:
  \<^verbatim>\<open>try: cur = connection.cursor(); cur.execute(create); cur.execute(select); ...\<close>
  \<^verbatim>\<open>except Exception as e: exit(message)\<close>
  \<^verbatim>\<open>finally: cur.execute(remove)\<close>.
  The result is the routines of the server, the table data and how the method ends. When
  \<^verbatim>\<open>cursor()\<close> fails, \<open>cur\<close> is unbound in the \<^verbatim>\<open>finally\<close> block; an error raised there replaces
  the \<^verbatim>\<open>SystemExit\<close> of \<^verbatim>\<open>exit\<close>.
\<close>

definition load_with_helper ::
  "statement \<Rightarrow> statement \<Rightarrow> statement \<Rightarrow> string \<Rightarrow> bool \<Rightarrow> (statement \<Rightarrow> bool) \<Rightarrow>
   (string \<times> py_value) list \<Rightarrow> routine list \<Rightarrow> document \<Rightarrow> routine list \<times> document \<times> outcome" where
  "load_with_helper create select remove message cursor_fails fails rows routines data =
     (if cursor_fails then (routines, data, Raised NameError)
      else
        (case (case execute fails create routines of
                 Inl e \<Rightarrow> (routines, data, True)
               | Inr routines1 \<Rightarrow>
                   (case execute fails select routines1 of
                      Inl e \<Rightarrow> (routines1, data, True)
                    | Inr routines2 \<Rightarrow> (routines2, fill_table_data rows data, False)))
         of (routines', data', failed) \<Rightarrow>
           (case execute fails remove routines' of
              Inl e \<Rightarrow> (routines', data', Raised e)
            | Inr routines'' \<Rightarrow>
                (routines'', data', if failed then SystemExit message else Returned))))"

definition load_row_count ::
  "bool \<Rightarrow> (statement \<Rightarrow> bool) \<Rightarrow> (string \<times> py_value) list \<Rightarrow> routine list \<Rightarrow> document \<Rightarrow>
   routine list \<times> document \<times> outcome" where
  "load_row_count =
     load_with_helper CREATE_ROW_COUNT_FUNC_SQL TABLE_INFO_WITH_ROW_COUNT_SQL
       REMOVE_ROW_COUNT_FUNC_SQL ''Load row count error, please check:''"

definition load_sequence_count ::
  "bool \<Rightarrow> (statement \<Rightarrow> bool) \<Rightarrow> (string \<times> py_value) list \<Rightarrow> routine list \<Rightarrow> document \<Rightarrow>
   routine list \<times> document \<times> outcome" where
  "load_sequence_count =
     load_with_helper CREATE_GET_SEQUENCE_LAST_VALUE_FUNC_SQL SEQUENCE_COUNT_SQL
       REMOVE_GET_SEQUENCE_LAST_VALUE_FUNC_SQL ''Load sequence error, please check:''"


section \<open>The structural diff\<close>

text \<open>The Document that \<^verbatim>\<open>load\<close> leaves in an object.\<close>

definition loaded :: "'r world \<Rightarrow> db_diff \<Rightarrow> document" where
  "loaded w self = table_data (fst (snd (load w self)))"

text \<open>
  Modelled from the spec: the function \<^verbatim>\<open>DeepDiff\<close> of the library \<^verbatim>\<open>deepdiff\<close>, which the
  program imports and the repository does not contain. The spec (sections 3 and 4.3) gives a
  Diff Result three parts, the keys present only in the source (removed), the keys present
  only in the target (added) and the keys present in both with differing values (changed),
  and compares values deeply: dicts key by key, whatever their order, and the sorted lists of
  a Schema Document element by element.
\<close>

record diff_report =
  removed :: "string list"
  added :: "string list"
  changed :: "string list"

text \<open>
  Modelled from the spec: the deep equality of two values that \<^verbatim>\<open>DeepDiff\<close> tests (section
  4.3: a nested Schema Document is compared section by section, whatever the order of its
  keys, and the list of each section element by element).
\<close>

definition same_dict :: "('k \<times> 'v) list \<Rightarrow> ('k \<times> 'v) list \<Rightarrow> bool" where
  "same_dict a b =
     (list_all (\<lambda>k. map_of a k = map_of b k) (map fst a)
      \<and> list_all (\<lambda>k. map_of a k = map_of b k) (map fst b))"

fun deep_equal :: "py_value \<Rightarrow> py_value \<Rightarrow> bool" where
  "deep_equal (PSchema a) (PSchema b) = same_dict a b"
| "deep_equal v v' = (v = v')"

text \<open>
  Modelled from the spec: \<^verbatim>\<open>DeepDiff(a, b)\<close> on two Documents (section 4.3: the keys present
  only in the source, the keys present only in the target, and the keys present in both with
  differing values), and the test that the result is empty.
\<close>

definition differs :: "document \<Rightarrow> document \<Rightarrow> string \<Rightarrow> bool" where
  "differs a b k =
     (case (map_of a k, map_of b k) of
        (Some v, Some v') \<Rightarrow> \<not> deep_equal v v'
      | _ \<Rightarrow> False)"

definition deep_diff :: "document \<Rightarrow> document \<Rightarrow> diff_report" where
  "deep_diff a b =
     \<lparr>removed = filter (\<lambda>k. map_of b k = None) (map fst a),
      added = filter (\<lambda>k. map_of a k = None) (map fst b),
      changed = filter (differs a b) (map fst a)\<rparr>"

definition is_empty_report :: "diff_report \<Rightarrow> bool" where
  "is_empty_report r = (removed r = [] \<and> added r = [] \<and> changed r = [])"

text \<open>
  Deep equality, as a property of the values: two values are equal when they are the same,
  two Schema Documents when they map the same sections to the same lists, and two Documents
  when every key has equal values in both or is in neither.
\<close>

fun value_equal :: "py_value \<Rightarrow> py_value \<Rightarrow> bool" where
  "value_equal (PSchema a) (PSchema b) = (map_of a = map_of b)"
| "value_equal v v' = (v = v')"

definition documents_equal :: "document \<Rightarrow> document \<Rightarrow> bool" where
  "documents_equal a b = (\<forall>k. rel_option value_equal (map_of a k) (map_of b k))"

text \<open>
  A world for the examples of the diff: the source has the tables \<^verbatim>\<open>users\<close> (10 rows) and
  \<^verbatim>\<open>orders\<close> (5 rows), the target has one more row in \<^verbatim>\<open>orders\<close>, and the replica has one more
  row in \<^verbatim>\<open>orders\<close> and the empty table \<^verbatim>\<open>audit\<close>.
\<close>

definition compare_world :: "diff_report world" where
  "compare_world =
     \<lparr>connect = (\<lambda>d. None),
      fetch_rows = (\<lambda>c d.
        if d = ''source'' then Inr [(''users'', PInt 10), (''orders'', PInt 5)]
        else if d = ''target'' then Inr [(''users'', PInt 10), (''orders'', PInt 6)]
        else Inr [(''users'', PInt 10), (''orders'', PInt 6), (''audit'', PInt 0)]),
      describe = (\<lambda>d t. Inr []),
      url_to_dsn = (\<lambda>u. u),
      filesize = (\<lambda>v. []),
      format_comma = (\<lambda>v. []),
      DeepDiff = deep_diff,
      truth = (\<lambda>r. \<not> is_empty_report r)\<rparr>"


section \<open>The loops as list functions\<close>

text \<open>
  The definitions of this section are not part of the program: they describe what the loops
  compute on the items that are left, and the lemmas below show that the loops compute it.
\<close>

definition non_title :: "string \<Rightarrow> bool" where
  "non_title item = (item \<notin> set section_title_list)"

definition column_entry :: "string \<Rightarrow> entry" where
  "column_entry item = Fields (map strip (split_on CHR ''|'' item))"

definition kept :: "string list \<Rightarrow> string \<Rightarrow> bool" where
  "kept exclued_keywords item = (\<not> list_ex (\<lambda>keyword. contains keyword item) exclued_keywords)"

definition section_entries :: "string list \<Rightarrow> string list \<Rightarrow> entry list" where
  "section_entries exclued_keywords items = map (\<lambda>item. Line (strip item)) (filter (kept exclued_keywords) items)"

function sections_of :: "string list \<Rightarrow> string list \<Rightarrow> schema_doc \<Rightarrow> py_error + schema_doc" where
  "sections_of [] exclued_keywords result = Inr result"
| "sections_of (title # rest) exclued_keywords result =
     (if rest = [] then Inl IndexError
      else sections_of (dropWhile non_title rest) exclued_keywords
             (AList.update title (sort (section_entries exclued_keywords (takeWhile non_title rest))) result))"
  by pat_completeness auto
termination
  by (relation "measure (\<lambda>(items, excl, result). length items)")
    (auto simp add: length_dropWhile_le le_imp_less_Suc)


definition sorted_doc :: "schema_doc \<Rightarrow> bool" where
  "sorted_doc doc = (distinct (map fst doc) \<and> (\<forall>(k, v) \<in> set doc. sorted v))"


definition header_like :: "string \<Rightarrow> bool" where
  "header_like item =
     (startswith item ''Table'' \<or> startswith item ''Column'' \<or> startswith item ''---'')"

definition flatten_sections :: "(string \<times> string list) list \<Rightarrow> string list" where
  "flatten_sections secs = concat (map (\<lambda>(title, ls). title # ls) secs)"

definition same_sections :: "(string \<times> string list) list \<Rightarrow> (string \<times> string list) list \<Rightarrow> bool" where
  "same_sections secs secs' =
     list_all2 (\<lambda>(title, ls) (title', ls'). title' = title \<and> mset ls' = mset ls) secs secs'"

definition well_formed_sections :: "(string \<times> string list) list \<Rightarrow> bool" where
  "well_formed_sections secs =
     list_all (\<lambda>(title, ls). \<not> non_title (strip title) \<and> list_all (\<lambda>l. non_title (strip l)) ls) secs"


definition item_sections :: "(string \<times> string list) list \<Rightarrow> (string \<times> string list) list" where
  "item_sections secs =
     map (\<lambda>(title, ls). (strip title, map strip (filter (\<lambda>item. item \<noteq> []) ls))) secs"

definition lines_kept :: "string list \<Rightarrow> schema_doc \<Rightarrow> bool" where
  "lines_kept exclued_keywords doc =
     (\<forall>(name, entries) \<in> set doc. \<forall>l. Line l \<in> set entries \<longrightarrow> kept exclued_keywords l)"

text \<open>The items of a list of lines: the lines that are not empty, trimmed.\<close>

definition trim_lines :: "string list \<Rightarrow> string list" where
  "trim_lines ls = map strip (filter (\<lambda>item. item \<noteq> []) ls)"

text \<open>
  The prefixes of the header tests that read at or after the end of a list of items: the
  tests that, with more items behind the list, read the first of them.
\<close>

definition tests_reaching :: "string list \<Rightarrow> string list" where
  "tests_reaching item_list =
     (case skip_prefix item_list ''Table'' 0 of
        Inl e \<Rightarrow> [''Table'', ''Column'', ''---'']
      | Inr index1 \<Rightarrow>
          (case skip_prefix item_list ''Column'' index1 of
             Inl e \<Rightarrow> [''Column'', ''---'']
           | Inr index2 \<Rightarrow>
               (case skip_prefix item_list ''---'' index2 of
                  Inl e \<Rightarrow> [''---'']
                | Inr index \<Rightarrow> [])))"


section \<open>Properties of the Schema Text Normalizer\<close>

lemma map_entry_map_entry:
  "AList.map_entry k f (AList.map_entry k g al) = AList.map_entry k (f \<circ> g) al"
  by (induction al) auto

lemma map_entry_update:
  "AList.map_entry k f (AList.update k v al) = AList.update k (f v) al"
  by (induction al) auto

lemma map_entry_ident: "AList.map_entry k (\<lambda>v. v) al = al"
  by (induction al) auto

lemma takeWhile_drop_step:
  "index < length xs \<Longrightarrow> P (xs ! index) \<Longrightarrow>
   takeWhile P (drop index xs) = xs ! index # takeWhile P (drop (Suc index) xs)"
  by (simp add: Cons_nth_drop_Suc [symmetric])

lemma takeWhile_drop_stop:
  "index < length xs \<Longrightarrow> \<not> P (xs ! index) \<Longrightarrow> takeWhile P (drop index xs) = []"
  by (simp add: Cons_nth_drop_Suc [symmetric])

lemma columns_loop_eq:
  "index < length item_list \<Longrightarrow> item = item_list ! index \<Longrightarrow>
   columns_loop item_list index item result =
     (AList.map_entry ''Columns:''
        (\<lambda>v. v @ map column_entry (takeWhile non_title (drop index item_list))) result,
      index + length (takeWhile non_title (drop index item_list)))"
proof (induction item_list index item result rule: columns_loop.induct)
  case (1 item_list index item result)
  show ?case
  proof (cases "item \<in> set section_title_list")
    case True
    with "1.prems" have "takeWhile non_title (drop index item_list) = []"
      by (simp add: takeWhile_drop_stop non_title_def)
    with True show ?thesis
      by (subst columns_loop.simps) (simp add: map_entry_ident)
  next
    case False
    with "1.prems" have tw: "takeWhile non_title (drop index item_list) =
        item # takeWhile non_title (drop (Suc index) item_list)"
      by (simp add: takeWhile_drop_step non_title_def)
    show ?thesis
    proof (cases "length item_list \<le> index + 1")
      case True
      with False tw show ?thesis
        by (subst columns_loop.simps) (simp add: column_entry_def [symmetric])
    next
      case last: False
      then have "columns_loop item_list (index + 1) (item_list ! (index + 1))
           (AList.map_entry ''Columns:'' (\<lambda>v. v @ [column_entry item]) result) =
         (AList.map_entry ''Columns:''
            (\<lambda>v. v @ map column_entry (takeWhile non_title (drop (index + 1) item_list)))
            (AList.map_entry ''Columns:'' (\<lambda>v. v @ [column_entry item]) result),
          index + 1 + length (takeWhile non_title (drop (index + 1) item_list)))"
        using "1.IH" [OF False refl refl] by (simp add: column_entry_def [symmetric])
      with False last tw show ?thesis
        by (subst columns_loop.simps)
          (simp add: column_entry_def [symmetric] map_entry_map_entry comp_def)
    qed
  qed
qed


lemma section_loop_eq:
  "index < length item_list \<Longrightarrow> item = item_list ! index \<Longrightarrow>
   section_loop item_list exclued_keywords sect index item result =
     (AList.map_entry sect
        (\<lambda>v. v @ section_entries exclued_keywords (takeWhile non_title (drop index item_list)))
        result,
      index + length (takeWhile non_title (drop index item_list)))"
proof (induction item_list exclued_keywords sect index item result rule: section_loop.induct)
  case (1 item_list exclued_keywords sect index item result)
  show ?case
  proof (cases "item \<in> set section_title_list")
    case True
    with "1.prems" have "takeWhile non_title (drop index item_list) = []"
      by (simp add: takeWhile_drop_stop non_title_def)
    with True show ?thesis
      by (subst section_loop.simps) (simp add: map_entry_ident section_entries_def)
  next
    case False
    let ?result' = "if kept exclued_keywords item
                    then AList.map_entry sect (\<lambda>v. v @ [Line (strip item)]) result else result"
    from False "1.prems" have tw: "takeWhile non_title (drop index item_list) =
        item # takeWhile non_title (drop (Suc index) item_list)"
      by (simp add: takeWhile_drop_step non_title_def)
    have step: "AList.map_entry sect (\<lambda>v. v @ section_entries exclued_keywords rest) ?result' =
        AList.map_entry sect (\<lambda>v. v @ section_entries exclued_keywords (item # rest)) result"
      for rest
      by (simp add: section_entries_def map_entry_map_entry comp_def)
    show ?thesis
    proof (cases "length item_list \<le> index + 1")
      case True
      then have "section_loop item_list exclued_keywords sect index item result =
          (?result', index + 1)"
        using False by (subst section_loop.simps) (simp add: kept_def Let_def)
      also have "?result' = AList.map_entry sect (\<lambda>v. v @ section_entries exclued_keywords []) ?result'"
        by (simp add: section_entries_def map_entry_ident)
      finally show ?thesis
        using True tw by (simp only: step) simp
    next
      case last: False
      have "section_loop item_list exclued_keywords sect index item result =
          section_loop item_list exclued_keywords sect (index + 1) (item_list ! (index + 1)) ?result'"
        using False last by (subst section_loop.simps) (simp add: kept_def Let_def)
      also have "\<dots> =
         (AList.map_entry sect
            (\<lambda>v. v @ section_entries exclued_keywords
               (takeWhile non_title (drop (index + 1) item_list))) ?result',
          index + 1 + length (takeWhile non_title (drop (index + 1) item_list)))"
        using "1.IH" [OF False refl refl refl] last by (simp add: kept_def)
      finally show ?thesis
        using tw by (simp only: step) simp
    qed
  qed
qed

lemma sections_loop_eq:
  "sections_loop item_list exclued_keywords index result =
     sections_of (drop index item_list) exclued_keywords result"
proof (induction item_list exclued_keywords index result rule: sections_loop.induct)
  case (1 item_list exclued_keywords index result)
  show ?case
  proof (cases "index < length item_list")
    case False
    then show ?thesis
      by (subst sections_loop.simps) simp
  next
    case True
    then have dr: "drop index item_list = item_list ! index # drop (Suc index) item_list"
      by (simp add: Cons_nth_drop_Suc)
    show ?thesis
    proof (cases "Suc index < length item_list")
      case False
      with True show ?thesis
        by (subst sections_loop.simps) (simp add: dr py_index_def)
    next
      case next_item: True
      let ?sect = "item_list ! index"
      let ?rest = "drop (Suc index) item_list"
      let ?r1 = "AList.update ?sect [] result"
      let ?n = "length (takeWhile non_title ?rest)"
      have pi: "py_index item_list (index + 1) = Inr (item_list ! (index + 1))"
        using next_item by (simp add: py_index_def)
      have sl: "section_loop item_list exclued_keywords ?sect (index + 1) (item_list ! (index + 1)) ?r1 =
          (AList.map_entry ?sect
             (\<lambda>v. v @ section_entries exclued_keywords (takeWhile non_title ?rest)) ?r1,
           Suc index + ?n)"
        using section_loop_eq [of "index + 1" item_list "item_list ! (index + 1)"
            exclued_keywords ?sect ?r1] next_item by simp
      have "sections_loop item_list exclued_keywords index result =
          sections_loop item_list exclued_keywords (Suc index + ?n)
            (AList.map_entry ?sect sort
               (AList.map_entry ?sect
                  (\<lambda>v. v @ section_entries exclued_keywords (takeWhile non_title ?rest)) ?r1))"
        using True by (subst sections_loop.simps) (simp only: pi sl Let_def if_True sum.case prod.case)
      also have "\<dots> = sections_of (drop (Suc index + ?n) item_list) exclued_keywords
            (AList.map_entry ?sect sort
               (AList.map_entry ?sect
                  (\<lambda>v. v @ section_entries exclued_keywords (takeWhile non_title ?rest)) ?r1))"
        by (rule "1.IH" [OF True refl refl refl pi sl [symmetric]])
      also have "drop (Suc index + ?n) item_list = dropWhile non_title ?rest"
        by (simp add: dropWhile_eq_drop add.commute)
      finally show ?thesis
        using next_item by (simp add: dr map_entry_map_entry map_entry_update comp_def)
    qed
  qed
qed

lemma format_items_eq:
  "format_items item_list exclued_keywords =
     (case skip_header item_list of
        Inl e \<Rightarrow> Inl e
      | Inr index \<Rightarrow>
          if index < length item_list
          then sections_of (dropWhile non_title (drop index item_list)) exclued_keywords
                 [(''Columns:'', sort (map column_entry (takeWhile non_title (drop index item_list))))]
          else Inl IndexError)"
proof (cases "skip_header item_list")
  case (Inl e)
  then show ?thesis by (simp add: format_items_def)
next
  case (Inr index)
  show ?thesis
  proof (cases "index < length item_list")
    case False
    with Inr show ?thesis by (simp add: format_items_def py_index_def)
  next
    case True
    have "drop (index + length (takeWhile non_title (drop index item_list))) item_list =
        dropWhile non_title (drop index item_list)"
      by (simp add: dropWhile_eq_drop add.commute)
    with Inr True show ?thesis
      by (simp add: format_items_def py_index_def columns_loop_eq sections_loop_eq
          map_entry_map_entry comp_def)
  qed
qed

lemma set_update_subset: "set (AList.update k v al) \<subseteq> insert (k, v) (set al)"
  by (induction al) auto

lemma sorted_doc_update:
  "sorted_doc result \<Longrightarrow> sorted v \<Longrightarrow> sorted_doc (AList.update k v result)"
  using set_update_subset [of k v result]
  by (auto simp add: sorted_doc_def distinct_update)

lemma sections_of_sorted:
  "sections_of items exclued_keywords result = Inr doc \<Longrightarrow> sorted_doc result \<Longrightarrow> sorted_doc doc"
proof (induction items exclued_keywords result rule: sections_of.induct)
  case (1 exclued_keywords result)
  then show ?case by simp
next
  case (2 title rest exclued_keywords result)
  show ?case
  proof (cases "rest = []")
    case True
    with "2.prems" show ?thesis by simp
  next
    case False
    with "2.prems" show ?thesis
      by (intro "2.IH" [OF False]) (simp_all add: sorted_doc_update)
  qed
qed


text \<open>
  C8: in every Schema Document that the normalizer returns, a section name is a key at most
  once, and the list under every key, the one of \<^verbatim>\<open>'Columns:'\<close> included, is sorted
  ascending, whatever the order of the lines of the text.
\<close>

theorem format_raw_schema_sorted:
  assumes "format_raw_schema raw_schema exclued_keywords = Inr doc"
  shows "distinct (map fst doc) \<and> (\<forall>(k, v) \<in> set doc. sorted v)"
proof -
  let ?items = "split_items raw_schema"
  let ?excl = "keyword_list exclued_keywords"
  from assms obtain index where
    doc: "sections_of (dropWhile non_title (drop index ?items)) ?excl
       [(''Columns:'', sort (map column_entry (takeWhile non_title (drop index ?items))))] = Inr doc"
    by (auto simp add: format_raw_schema_def format_items_eq split: sum.splits if_splits)
  have "sorted_doc [(''Columns:'', sort (map column_entry (takeWhile non_title (drop index ?items))))]"
    by (simp add: sorted_doc_def)
  with doc have "sorted_doc doc"
    by (rule sections_of_sorted)
  then show ?thesis
    by (simp add: sorted_doc_def)
qed

text \<open>The theorem at a text with two unsorted column rows and two unsorted index lines.\<close>

theorem format_raw_schema_sorted_witness:
  "format_raw_schema (''b | int'' @ [CHR 0x0A] @ ''a | int'' @ [CHR 0x0A] @ ''Indexes:'' @ [CHR 0x0A]
       @ ''  z'' @ [CHR 0x0A] @ ''  c'') None
     = Inr [(''Columns:'', [Fields [''a'', ''int''], Fields [''b'', ''int'']]),
            (''Indexes:'', [Line ''c'', Line ''z''])]
   \<and> distinct [''Columns:'', ''Indexes:'']
   \<and> sorted [Fields [''a'', ''int''], Fields [''b'', ''int'']]
   \<and> sorted [Line ''c'', Line ''z'']"
proof -
  have run: "format_raw_schema (''b | int'' @ [CHR 0x0A] @ ''a | int'' @ [CHR 0x0A] @ ''Indexes:''
       @ [CHR 0x0A] @ ''  z'' @ [CHR 0x0A] @ ''  c'') None
     = Inr [(''Columns:'', [Fields [''a'', ''int''], Fields [''b'', ''int'']]),
            (''Indexes:'', [Line ''c'', Line ''z''])]"
    by code_simp
  from format_raw_schema_sorted [OF run] have
    "distinct [''Columns:'', ''Indexes:'']
     \<and> sorted [Fields [''a'', ''int''], Fields [''b'', ''int'']]
     \<and> sorted [Line ''c'', Line ''z'']"
    by simp
  with run show ?thesis
    by (rule conjI)
qed

lemma last_dropWhile: "dropWhile P xs \<noteq> [] \<Longrightarrow> last (dropWhile P xs) = last xs"
  by (metis last_appendR takeWhile_dropWhile_id)

lemma dropWhile_last_iff:
  assumes "xs \<noteq> []"
  shows "(dropWhile P xs = [] \<or> P (last (dropWhile P xs))) \<longleftrightarrow> P (last xs)"
proof (cases "dropWhile P xs = []")
  case True
  then have "\<forall>x \<in> set xs. P x" by (simp add: dropWhile_eq_Nil_conv)
  with assms have "P (last xs)" by simp
  with True show ?thesis by simp
next
  case False
  from last_dropWhile [OF False] have "P (last (dropWhile P xs)) = P (last xs)"
    by (rule arg_cong)
  with False show ?thesis by blast
qed

lemma sections_of_returns_iff:
  "items = [] \<or> \<not> non_title (hd items) \<Longrightarrow>
   (\<exists>doc. sections_of items exclued_keywords result = Inr doc) \<longleftrightarrow>
     (items = [] \<or> non_title (last items))"
proof (induction items exclued_keywords result rule: sections_of.induct)
  case (1 exclued_keywords result)
  then show ?case by simp
next
  case (2 title rest exclued_keywords result)
  show ?case
  proof (cases "rest = []")
    case True
    with "2.prems" show ?thesis by simp
  next
    case False
    let ?rest = "dropWhile non_title rest"
    have "?rest = [] \<or> \<not> non_title (hd ?rest)"
      using hd_dropWhile [of non_title rest] by auto
    note IH = "2.IH" [OF False this]
    have "(?rest = [] \<or> non_title (last ?rest)) \<longleftrightarrow> non_title (last rest)"
      using False by (rule dropWhile_last_iff)
    with IH False show ?thesis by simp
  qed
qed

lemma format_items_returns_iff:
  "(\<exists>doc. format_items item_list exclued_keywords = Inr doc) \<longleftrightarrow>
     (\<exists>index. skip_header item_list = Inr index \<and> index < length item_list
        \<and> non_title (last item_list))"
proof (cases "skip_header item_list")
  case (Inl e)
  then show ?thesis by (simp add: format_items_eq)
next
  case (Inr index)
  show ?thesis
  proof (cases "index < length item_list")
    case False
    with Inr show ?thesis by (simp add: format_items_eq)
  next
    case True
    let ?rest = "dropWhile non_title (drop index item_list)"
    have head: "?rest = [] \<or> \<not> non_title (hd ?rest)"
      using hd_dropWhile [of non_title "drop index item_list"] by auto
    from True have "drop index item_list \<noteq> []" and "last (drop index item_list) = last item_list"
      by simp_all
    then have "(?rest = [] \<or> non_title (last ?rest)) \<longleftrightarrow> non_title (last item_list)"
      using dropWhile_last_iff [of "drop index item_list" non_title] by simp
    with Inr True sections_of_returns_iff [OF head] show ?thesis
      by (simp add: format_items_eq)
  qed
qed

lemma format_raw_schema_returns_iff:
  "(\<exists>doc. format_raw_schema raw_schema exclued_keywords = Inr doc) \<longleftrightarrow>
     (\<exists>index. skip_header (split_items raw_schema) = Inr index
        \<and> index < length (split_items raw_schema)
        \<and> non_title (last (split_items raw_schema)))"
  by (simp add: format_raw_schema_def format_items_returns_iff)

text \<open>
  C5: the normalizer is not total. On the empty text the first header test reads
  \<^verbatim>\<open>item_list[0]\<close> of an empty list, and when the last line is a section title the read
  that follows the title is out of range: both raise IndexError. The two inner loops test
  \<^verbatim>\<open>index >= length\<close> before they read; these reads do not. The normalizer returns a
  document exactly when an item is left after the header tests and the last item is not a
  section title (\<open>format_raw_schema_returns_iff\<close>), so a text without header lines and a
  text that starts at a section title are accepted.
\<close>

theorem format_raw_schema_not_total:
  "format_raw_schema '''' None = Inl IndexError
   \<and> format_raw_schema (''id | integer'' @ [CHR 0x0A] @ ''Indexes:'') None = Inl IndexError"
  by code_simp

lemma title_not_header_like: "\<not> non_title t \<Longrightarrow> \<not> header_like t"
  by (auto simp add: non_title_def section_title_list_def header_like_def startswith_def)

lemma tests_reaching_subset: "set (tests_reaching H) \<subseteq> {''Table'', ''Column'', ''---''}"
  by (auto simp add: tests_reaching_def split: sum.splits)

lemma title_not_reached:
  "\<not> non_title t \<Longrightarrow> list_all (\<lambda>p. \<not> startswith t p) (tests_reaching H)"
  using title_not_header_like [of t] tests_reaching_subset [of H]
  by (auto simp add: list_all_iff header_like_def)

lemma skip_prefix_inside:
  "skip_prefix H p i = Inr j \<Longrightarrow> skip_prefix (H @ R) p i = Inr j \<and> j \<le> length H"
  by (auto simp add: skip_prefix_def py_index_def nth_append split: if_splits)

lemma skip_prefix_outside:
  assumes "skip_prefix H p i = Inl e" and "i \<le> length H" and "R = [] \<or> \<not> startswith (hd R) p"
  shows "skip_prefix (H @ R) p i = (if R = [] then Inl IndexError else Inr (length H))"
    and "i = length H"
proof -
  from assms(1,2) show i: "i = length H"
    by (auto simp add: skip_prefix_def py_index_def split: if_splits)
  from assms(3) show "skip_prefix (H @ R) p i = (if R = [] then Inl IndexError else Inr (length H))"
    by (cases R) (auto simp add: skip_prefix_def py_index_def i)
qed

lemma skip_prefix_at_end: "skip_prefix H p (length H) = Inl IndexError"
  by (simp add: skip_prefix_def py_index_def)

lemma skip_header_append_eq:
  assumes "R = [] \<or> list_all (\<lambda>p. \<not> startswith (hd R) p) (tests_reaching H)"
  shows "skip_header (H @ R) =
     (if tests_reaching H = [] then skip_header H
      else if R = [] then Inl IndexError else Inr (length H))"
proof (cases "skip_prefix H ''Table'' 0")
  case (Inl e)
  then have reach: "tests_reaching H = [''Table'', ''Column'', ''---'']"
    by (simp add: tests_reaching_def)
  with assms have no: "R = [] \<or> \<not> startswith (hd R) p" if "p \<in> {''Table'', ''Column'', ''---''}" for p
    using that by auto
  have 1: "skip_prefix (H @ R) ''Table'' 0 = (if R = [] then Inl IndexError else Inr (length H))"
    using no [of "''Table''"] by (intro skip_prefix_outside(1) [OF Inl]) simp_all
  have 2: "skip_prefix (H @ R) p (length H) = (if R = [] then Inl IndexError else Inr (length H))"
    if "p \<in> {''Table'', ''Column'', ''---''}" for p
    using no [OF that] by (intro skip_prefix_outside(1) [OF skip_prefix_at_end]) simp_all
  from 1 2 reach show ?thesis
    by (simp add: skip_header_def)
next
  case i1: (Inr index1)
  note in1 = skip_prefix_inside [OF i1, of R]
  show ?thesis
  proof (cases "skip_prefix H ''Column'' index1")
    case (Inl e)
    with i1 have reach: "tests_reaching H = [''Column'', ''---'']"
      by (simp add: tests_reaching_def)
    with assms have no: "R = [] \<or> \<not> startswith (hd R) p" if "p \<in> {''Column'', ''---''}" for p
      using that by auto
    have 1: "skip_prefix (H @ R) ''Column'' index1 =
        (if R = [] then Inl IndexError else Inr (length H))"
      using in1 no [of "''Column''"] by (intro skip_prefix_outside(1) [OF Inl]) simp_all
    have 2: "skip_prefix (H @ R) ''---'' (length H) =
        (if R = [] then Inl IndexError else Inr (length H))"
      using no [of "''---''"] by (intro skip_prefix_outside(1) [OF skip_prefix_at_end]) simp_all
    from in1 1 2 reach show ?thesis
      by (simp add: skip_header_def)
  next
    case i2: (Inr index2)
    note in2 = skip_prefix_inside [OF i2, of R]
    show ?thesis
    proof (cases "skip_prefix H ''---'' index2")
      case (Inl e)
      with i1 i2 have reach: "tests_reaching H = [''---'']"
        by (simp add: tests_reaching_def)
      with assms have no: "R = [] \<or> \<not> startswith (hd R) ''---''"
        by auto
      have 1: "skip_prefix (H @ R) ''---'' index2 =
          (if R = [] then Inl IndexError else Inr (length H))"
        using in2 no by (intro skip_prefix_outside(1) [OF Inl]) simp_all
      from in1 in2 1 reach show ?thesis
        by (simp add: skip_header_def)
    next
      case i3: (Inr index)
      with i1 i2 have reach: "tests_reaching H = []"
        by (simp add: tests_reaching_def)
      from i1 i2 i3 in1 in2 skip_prefix_inside [OF i3, of R] reach show ?thesis
        by (simp add: skip_header_def)
    qed
  qed
qed

lemma tests_reaching_Nil_iff: "tests_reaching H = [] \<longleftrightarrow> (\<exists>index. skip_header H = Inr index)"
  by (auto simp add: tests_reaching_def skip_header_def split: sum.splits)

lemma skip_header_le: "skip_header H = Inr h \<Longrightarrow> h \<le> length H"
proof -
  assume "skip_header H = Inr h"
  then obtain index1 index2 where "skip_prefix H ''---'' index2 = Inr h"
    by (auto simp add: skip_header_def split: sum.splits)
  from skip_prefix_inside [OF this, of "[]"] show ?thesis by simp
qed

lemma skip_header_append:
  assumes "R = [] \<longleftrightarrow> R' = []"
    and "R = [] \<or> list_all (\<lambda>p. \<not> startswith (hd R) p) (tests_reaching H)"
    and "R' = [] \<or> list_all (\<lambda>p. \<not> startswith (hd R') p) (tests_reaching H)"
  shows "skip_header (H @ R) = skip_header (H @ R')"
    and "skip_header (H @ R) = Inr h \<Longrightarrow> h \<le> length H"
proof -
  show "skip_header (H @ R) = skip_header (H @ R')"
    using assms(1) by (simp add: skip_header_append_eq [OF assms(2)] skip_header_append_eq [OF assms(3)])
  show "h \<le> length H" if "skip_header (H @ R) = Inr h"
    using that skip_header_le [of H h]
    by (auto simp add: skip_header_append_eq [OF assms(2)] split: if_splits)
qed

lemma sort_cong_mset: "mset xs = mset ys \<Longrightarrow> sort xs = sort ys"
  for xs ys :: "'a::linorder list"
  by (rule properties_for_sort) simp_all

lemma takeWhile_block:
  "list_all P xs \<Longrightarrow> ys = [] \<or> \<not> P (hd ys) \<Longrightarrow> takeWhile P (xs @ ys) = xs"
  by (cases ys) (auto simp add: list_all_iff takeWhile_append2)

lemma dropWhile_block:
  "list_all P xs \<Longrightarrow> ys = [] \<or> \<not> P (hd ys) \<Longrightarrow> dropWhile P (xs @ ys) = ys"
  by (cases ys) (auto simp add: list_all_iff dropWhile_append2)

lemma flatten_sections_Cons:
  "flatten_sections ((title, ls) # secs) = title # ls @ flatten_sections secs"
  by (simp add: flatten_sections_def)

lemma flatten_sections_head:
  "list_all (\<lambda>(title, ls). \<not> non_title title \<and> list_all non_title ls) secs \<Longrightarrow>
   flatten_sections secs = [] \<or> \<not> non_title (hd (flatten_sections secs))"
  by (cases secs) (auto simp add: flatten_sections_def)

lemma flatten_sections_Nil: "flatten_sections secs = [] \<longleftrightarrow> secs = []"
  by (cases secs) (auto simp add: flatten_sections_def)

lemma sections_of_permuted:
  assumes "list_all2 (\<lambda>(title, ls) (title', ls'). title' = title \<and> mset ls' = mset ls) secs secs'"
    and "list_all (\<lambda>(title, ls). \<not> non_title title \<and> list_all non_title ls) secs"
  shows "sections_of (flatten_sections secs) exclued_keywords result =
         sections_of (flatten_sections secs') exclued_keywords result"
  using assms
proof (induction secs secs' arbitrary: result rule: list_all2_induct)
  case Nil
  then show ?case by simp
next
  case (Cons s secs s' secs')
  obtain title ls where s: "s = (title, ls)" by (cases s)
  obtain ls' where s': "s' = (title, ls')" and ms: "mset ls' = mset ls"
    using Cons.hyps(1) s by (cases s') auto
  from Cons.prems s have title: "\<not> non_title title" and ls: "list_all non_title ls"
    and wf: "list_all (\<lambda>(title, ls). \<not> non_title title \<and> list_all non_title ls) secs"
    by simp_all
  from ms have "set ls' = set ls" by (rule mset_eq_setD)
  with ls have ls': "list_all non_title ls'" by (simp add: list_all_iff)
  from ms have len: "length ls' = length ls" by (rule mset_eq_length)
  have wf': "list_all (\<lambda>(title, ls). \<not> non_title title \<and> list_all non_title ls) secs'"
    using Cons.hyps(2) wf
    by (induction secs secs' rule: list_all2_induct)
      (auto simp add: list_all_iff dest: mset_eq_setD)
  note hd = flatten_sections_head [OF wf] and hd' = flatten_sections_head [OF wf']
  have nil: "flatten_sections secs = [] \<longleftrightarrow> flatten_sections secs' = []"
    using list_all2_lengthD [OF Cons.hyps(2)] by (auto simp add: flatten_sections_Nil)
  have empty: "ls @ flatten_sections secs = [] \<longleftrightarrow> ls' @ flatten_sections secs' = []"
    using nil len by auto
  have entries: "sort (section_entries exclued_keywords ls') = sort (section_entries exclued_keywords ls)"
    by (rule sort_cong_mset) (simp add: section_entries_def ms)
  show ?case
  proof (cases "ls @ flatten_sections secs = []")
    case True
    with empty show ?thesis
      by (simp add: s s' flatten_sections_Cons)
  next
    case False
    with empty have False': "ls' @ flatten_sections secs' \<noteq> []" by simp
    have "sections_of (title # ls @ flatten_sections secs) exclued_keywords result =
        sections_of (flatten_sections secs) exclued_keywords
          (AList.update title (sort (section_entries exclued_keywords ls)) result)"
      using False
      by (simp only: sections_of.simps if_False takeWhile_block [OF ls hd] dropWhile_block [OF ls hd])
    moreover have "sections_of (title # ls' @ flatten_sections secs') exclued_keywords result =
        sections_of (flatten_sections secs') exclued_keywords
          (AList.update title (sort (section_entries exclued_keywords ls')) result)"
      using False'
      by (simp only: sections_of.simps if_False takeWhile_block [OF ls' hd']
          dropWhile_block [OF ls' hd'])
    ultimately show ?thesis
      by (simp only: s s' flatten_sections_Cons entries Cons.IH [OF wf])
  qed
qed


lemma format_items_permuted:
  assumes cols: "mset C' = mset C"
    and nt: "list_all non_title (H @ C)"
    and nh: "list_all (\<lambda>c. list_all (\<lambda>p. \<not> startswith c p) (tests_reaching H)) C"
    and same: "list_all2 (\<lambda>(title, ls) (title', ls'). title' = title \<and> mset ls' = mset ls) secs secs'"
    and wf: "list_all (\<lambda>(title, ls). \<not> non_title title \<and> list_all non_title ls) secs"
  shows "format_items (H @ C @ flatten_sections secs) exclued_keywords =
         format_items (H @ C' @ flatten_sections secs') exclued_keywords"
proof -
  let ?S = "flatten_sections secs" and ?S' = "flatten_sections secs'"
  let ?R = "C @ ?S" and ?R' = "C' @ ?S'"
  from cols have setC: "set C' = set C" by (rule mset_eq_setD)
  from cols have lenC: "length C' = length C" by (rule mset_eq_length)
  have wf': "list_all (\<lambda>(title, ls). \<not> non_title title \<and> list_all non_title ls) secs'"
    using same wf
    by (induction secs secs' rule: list_all2_induct)
      (auto simp add: list_all_iff dest: mset_eq_setD)
  note hd = flatten_sections_head [OF wf] and hd' = flatten_sections_head [OF wf']
  have nil: "?S = [] \<longleftrightarrow> ?S' = []"
    using list_all2_lengthD [OF same] by (auto simp add: flatten_sections_Nil)
  have empty: "?R = [] \<longleftrightarrow> ?R' = []"
    using nil lenC by auto
  have hR: "?R = [] \<or> list_all (\<lambda>p. \<not> startswith (hd ?R) p) (tests_reaching H)"
  proof (cases "C = []")
    case True
    with hd show ?thesis by (auto dest: title_not_reached)
  next
    case False
    with nh show ?thesis by (cases C) simp_all
  qed
  have hR': "?R' = [] \<or> list_all (\<lambda>p. \<not> startswith (hd ?R') p) (tests_reaching H)"
  proof (cases "C' = []")
    case True
    with hd' show ?thesis by (auto dest: title_not_reached)
  next
    case False
    then have "hd C' \<in> set C" using setC by (cases C') auto
    with nh False show ?thesis by (simp add: list_all_iff)
  qed
  note sh = skip_header_append [of ?R ?R' H, OF empty hR hR']
  show ?thesis
  proof (cases "skip_header (H @ ?R)")
    case (Inl e)
    moreover from Inl sh(1) have "skip_header (H @ ?R') = Inl e" by simp
    ultimately show ?thesis by (simp add: format_items_eq)
  next
    case (Inr index)
    from Inr sh(1) have Inr': "skip_header (H @ ?R') = Inr index" by simp
    from Inr have le: "index \<le> length H" by (rule sh(2))
    have bound: "index < length (H @ ?R) \<longleftrightarrow> index < length (H @ ?R')"
      using le empty by (cases "index < length H") auto
    have ntH: "list_all non_title (drop index H @ C)" and ntH': "list_all non_title (drop index H @ C')"
      using nt setC by (auto simp add: list_all_iff dest: in_set_dropD)
    have tw: "takeWhile non_title (drop index (H @ ?R)) = drop index H @ C"
      and dw: "dropWhile non_title (drop index (H @ ?R)) = ?S"
      using le takeWhile_block [OF ntH hd] dropWhile_block [OF ntH hd] by simp_all
    have tw': "takeWhile non_title (drop index (H @ ?R')) = drop index H @ C'"
      and dw': "dropWhile non_title (drop index (H @ ?R')) = ?S'"
      using le takeWhile_block [OF ntH' hd'] dropWhile_block [OF ntH' hd'] by simp_all
    have columns: "sort (map column_entry (drop index H @ C')) =
        sort (map column_entry (drop index H @ C))"
      by (rule sort_cong_mset) (simp add: cols)
    show ?thesis
      unfolding format_items_eq Inr Inr' sum.case tw dw tw' dw' columns
      using bound sections_of_permuted [OF same wf] by simp
  qed
qed


lemma strip_Nil: "strip [] = []"
  by (simp add: strip_def)

lemma non_title_Nil: "non_title []"
  by (simp add: non_title_def section_title_list_def)

lemma items_flatten_sections:
  "well_formed_sections secs \<Longrightarrow>
   map strip (filter (\<lambda>item. item \<noteq> []) (flatten_sections secs)) =
     flatten_sections (item_sections secs)"
proof (induction secs)
  case Nil
  then show ?case by (simp add: flatten_sections_def item_sections_def)
next
  case (Cons s secs)
  obtain title ls where s: "s = (title, ls)" by (cases s)
  from Cons.prems s have "\<not> non_title (strip title)" and wf: "well_formed_sections secs"
    by (simp_all add: well_formed_sections_def)
  then have "title \<noteq> []"
    using non_title_Nil by (auto simp add: strip_Nil)
  with Cons.IH [OF wf] show ?case
    by (simp add: s flatten_sections_def item_sections_def)
qed

text \<open>
  C2, as amended. Let the lines of two texts be the same leading lines, then column rows that
  are a permutation of each other, then the same section titles, each followed by lines that
  are a permutation of each other. If no line before the first title is a section title, and
  no permuted column row begins, once trimmed, with the prefix of a header test that reads
  past the leading lines, the normalizer gives the same result (the same document, or the
  same error) on both texts. When the leading lines hold the three header lines, no header
  test reads past them (\<open>tests_reaching_Nil_iff\<close>) and the column rows are free.
\<close>

theorem format_raw_schema_permuted:
  assumes raw: "split_on CHR 0x0A raw_schema = header @ columns @ flatten_sections secs"
    and raw': "split_on CHR 0x0A raw_schema' = header @ columns' @ flatten_sections secs'"
    and cols: "mset columns' = mset columns"
    and nt: "list_all (\<lambda>l. non_title (strip l)) (header @ columns)"
    and nh: "list_all (\<lambda>c. list_all (\<lambda>p. \<not> startswith (strip c) p)
               (tests_reaching (trim_lines header))) columns"
    and same: "same_sections secs secs'"
    and wf: "well_formed_sections secs"
  shows "format_raw_schema raw_schema exclued_keywords =
         format_raw_schema raw_schema' exclued_keywords"
proof -
  let ?items = "\<lambda>ls. map strip (filter (\<lambda>item. item \<noteq> []) ls)"
  have wf': "well_formed_sections secs'"
    using same wf unfolding same_sections_def well_formed_sections_def
    by (induction secs secs' rule: list_all2_induct)
      (auto simp add: list_all_iff dest: mset_eq_setD)
  have items: "split_items raw_schema = ?items header @ ?items columns @ flatten_sections (item_sections secs)"
    by (simp add: split_items_def raw items_flatten_sections [OF wf])
  have items': "split_items raw_schema' = ?items header @ ?items columns' @ flatten_sections (item_sections secs')"
    by (simp add: split_items_def raw' items_flatten_sections [OF wf'])
  have 1: "mset (?items columns') = mset (?items columns)"
    by (simp add: cols)
  have 2: "list_all non_title (?items header @ ?items columns)"
    using nt by (auto simp add: list_all_iff)
  have 3: "list_all (\<lambda>c. list_all (\<lambda>p. \<not> startswith c p) (tests_reaching (?items header)))
      (?items columns)"
    using nh by (auto simp add: list_all_iff trim_lines_def)
  have 4: "list_all2 (\<lambda>(title, ls) (title', ls'). title' = title \<and> mset ls' = mset ls)
      (item_sections secs) (item_sections secs')"
    using same unfolding same_sections_def item_sections_def
    by (induction secs secs' rule: list_all2_induct) auto
  have 5: "list_all (\<lambda>(title, ls). \<not> non_title title \<and> list_all non_title ls) (item_sections secs)"
    using wf unfolding well_formed_sections_def item_sections_def
    by (induction secs) (auto simp add: list_all_iff)
  show ?thesis
    unfolding format_raw_schema_def items items'
    by (rule format_items_permuted [OF 1 2 3 4 5])
qed

text \<open>
  The theorem at a text with the three header lines and a column row that begins with
  \<^verbatim>\<open>Table\<close>, and at a text with no header line.
\<close>

theorem format_raw_schema_permuted_witness:
  "format_raw_schema
     (''Table t'' @ [CHR 0x0A] @ ''Column | Type'' @ [CHR 0x0A] @ ''---+---'' @ [CHR 0x0A]
        @ '' Table_id | int'' @ [CHR 0x0A] @ '' a | int'' @ [CHR 0x0A] @ ''Indexes:''
        @ [CHR 0x0A] @ ''  z'' @ [CHR 0x0A] @ ''  c'') None =
   format_raw_schema
     (''Table t'' @ [CHR 0x0A] @ ''Column | Type'' @ [CHR 0x0A] @ ''---+---'' @ [CHR 0x0A]
        @ '' a | int'' @ [CHR 0x0A] @ '' Table_id | int'' @ [CHR 0x0A] @ ''Indexes:''
        @ [CHR 0x0A] @ ''  c'' @ [CHR 0x0A] @ ''  z'') None
   \<and> format_raw_schema (''b | int'' @ [CHR 0x0A] @ ''a | int'') None =
       format_raw_schema (''a | int'' @ [CHR 0x0A] @ ''b | int'') None"
proof (rule conjI)
  show "format_raw_schema
     (''Table t'' @ [CHR 0x0A] @ ''Column | Type'' @ [CHR 0x0A] @ ''---+---'' @ [CHR 0x0A]
        @ '' Table_id | int'' @ [CHR 0x0A] @ '' a | int'' @ [CHR 0x0A] @ ''Indexes:''
        @ [CHR 0x0A] @ ''  z'' @ [CHR 0x0A] @ ''  c'') None =
   format_raw_schema
     (''Table t'' @ [CHR 0x0A] @ ''Column | Type'' @ [CHR 0x0A] @ ''---+---'' @ [CHR 0x0A]
        @ '' a | int'' @ [CHR 0x0A] @ '' Table_id | int'' @ [CHR 0x0A] @ ''Indexes:''
        @ [CHR 0x0A] @ ''  c'' @ [CHR 0x0A] @ ''  z'') None"
  proof (rule format_raw_schema_permuted
      [where header = "[''Table t'', ''Column | Type'', ''---+---'']"
         and columns = "['' Table_id | int'', '' a | int'']"
         and columns' = "['' a | int'', '' Table_id | int'']"
         and secs = "[(''Indexes:'', [''  z'', ''  c''])]"
         and secs' = "[(''Indexes:'', [''  c'', ''  z''])]"])
    show "split_on CHR 0x0A (''Table t'' @ [CHR 0x0A] @ ''Column | Type'' @ [CHR 0x0A] @ ''---+---''
          @ [CHR 0x0A] @ '' Table_id | int'' @ [CHR 0x0A] @ '' a | int'' @ [CHR 0x0A] @ ''Indexes:''
          @ [CHR 0x0A] @ ''  z'' @ [CHR 0x0A] @ ''  c'') =
        [''Table t'', ''Column | Type'', ''---+---''] @ ['' Table_id | int'', '' a | int'']
          @ flatten_sections [(''Indexes:'', [''  z'', ''  c''])]"
      by code_simp
    show "split_on CHR 0x0A (''Table t'' @ [CHR 0x0A] @ ''Column | Type'' @ [CHR 0x0A] @ ''---+---''
          @ [CHR 0x0A] @ '' a | int'' @ [CHR 0x0A] @ '' Table_id | int'' @ [CHR 0x0A] @ ''Indexes:''
          @ [CHR 0x0A] @ ''  c'' @ [CHR 0x0A] @ ''  z'') =
        [''Table t'', ''Column | Type'', ''---+---''] @ ['' a | int'', '' Table_id | int'']
          @ flatten_sections [(''Indexes:'', [''  c'', ''  z''])]"
      by code_simp
    show "mset ['' a | int'', '' Table_id | int''] = mset ['' Table_id | int'', '' a | int'']"
      by simp
    show "list_all (\<lambda>l. non_title (strip l))
        ([''Table t'', ''Column | Type'', ''---+---''] @ ['' Table_id | int'', '' a | int''])"
      by code_simp
    show "list_all (\<lambda>c. list_all (\<lambda>p. \<not> startswith (strip c) p)
        (tests_reaching (trim_lines [''Table t'', ''Column | Type'', ''---+---''])))
        ['' Table_id | int'', '' a | int'']"
      by code_simp
    show "same_sections [(''Indexes:'', [''  z'', ''  c''])] [(''Indexes:'', [''  c'', ''  z''])]"
      by (simp add: same_sections_def)
    show "well_formed_sections [(''Indexes:'', [''  z'', ''  c''])]"
      by code_simp
  qed
  show "format_raw_schema (''b | int'' @ [CHR 0x0A] @ ''a | int'') None =
       format_raw_schema (''a | int'' @ [CHR 0x0A] @ ''b | int'') None"
  proof (rule format_raw_schema_permuted
      [where header = "[]" and columns = "[''b | int'', ''a | int'']"
         and columns' = "[''a | int'', ''b | int'']" and secs = "[]" and secs' = "[]"])
    show "split_on CHR 0x0A (''b | int'' @ [CHR 0x0A] @ ''a | int'') =
        [] @ [''b | int'', ''a | int''] @ flatten_sections []"
      by code_simp
    show "split_on CHR 0x0A (''a | int'' @ [CHR 0x0A] @ ''b | int'') =
        [] @ [''a | int'', ''b | int''] @ flatten_sections []"
      by code_simp
    show "mset [''a | int'', ''b | int''] = mset [''b | int'', ''a | int'']"
      by simp
    show "list_all (\<lambda>l. non_title (strip l)) ([] @ [''b | int'', ''a | int''])"
      by code_simp
    show "list_all (\<lambda>c. list_all (\<lambda>p. \<not> startswith (strip c) p)
        (tests_reaching (trim_lines []))) [''b | int'', ''a | int'']"
      by code_simp
    show "same_sections [] []"
      by (simp add: same_sections_def)
    show "well_formed_sections []"
      by code_simp
  qed
qed

lemma tests_reaching_full_header:
  "tests_reaching (trim_lines [''Table t'', ''Column | Type'', ''---+---'']) = []"
  by code_simp

text \<open>
  C2 as stated fails: a column row that begins with \<^verbatim>\<open>Table\<close> is taken for the header line
  when the permutation puts it first, and is then missing from the document.
\<close>

theorem format_raw_schema_permuted_counterexample:
  "format_raw_schema (''x | int'' @ [CHR 0x0A] @ ''Table_id | int'') None =
     Inr [(''Columns:'', [Fields [''Table_id'', ''int''], Fields [''x'', ''int'']])]
   \<and> format_raw_schema (''Table_id | int'' @ [CHR 0x0A] @ ''x | int'') None =
     Inr [(''Columns:'', [Fields [''x'', ''int'']])]"
  by code_simp

lemma strip_idem: "strip (strip s) = strip s"
proof -
  let ?t = "dropWhile is_space s"
  let ?u = "dropWhile is_space (rev ?t)"
  have "dropWhile is_space (rev ?u) = rev ?u"
  proof (cases "?u = []")
    case True
    show ?thesis unfolding True by simp
  next
    case False
    have t: "?t \<noteq> []"
    proof
      assume "?t = []"
      then have "?u = []" by (simp only: rev.simps dropWhile.simps)
      with False show False by simp
    qed
    have "rev ?t = takeWhile is_space (rev ?t) @ ?u" by simp
    then have "last (rev ?t) = last ?u"
      using False by (metis last_appendR)
    then have "hd (rev ?u) = hd ?t"
      using False t by (simp add: hd_rev last_rev)
    moreover have "\<not> is_space (hd ?t)"
      using t by (rule hd_dropWhile)
    ultimately show ?thesis
      using False by (cases "rev ?u") auto
  qed
  then show ?thesis
    by (simp add: strip_def)
qed

lemma split_items_stripped: "item \<in> set (split_items raw_schema) \<Longrightarrow> strip item = item"
  by (auto simp add: split_items_def strip_idem)

lemma lines_kept_update:
  "lines_kept exclued_keywords result \<Longrightarrow>
   \<forall>l. Line l \<in> set entries \<longrightarrow> kept exclued_keywords l \<Longrightarrow>
   lines_kept exclued_keywords (AList.update name entries result)"
  using set_update_subset [of name entries result]
  by (fastforce simp add: lines_kept_def)

lemma sections_of_lines_kept:
  "sections_of items exclued_keywords result = Inr doc \<Longrightarrow>
   lines_kept exclued_keywords result \<Longrightarrow> \<forall>item \<in> set items. strip item = item \<Longrightarrow>
   lines_kept exclued_keywords doc"
proof (induction items exclued_keywords result rule: sections_of.induct)
  case (1 exclued_keywords result)
  then show ?case by simp
next
  case (2 title rest exclued_keywords result)
  show ?case
  proof (cases "rest = []")
    case True
    with "2.prems" show ?thesis by simp
  next
    case False
    have "\<forall>l. Line l \<in> set (sort (section_entries exclued_keywords (takeWhile non_title rest)))
        \<longrightarrow> kept exclued_keywords l"
      using "2.prems"(3) by (auto simp add: section_entries_def dest!: set_takeWhileD)
    then have "lines_kept exclued_keywords
        (AList.update title (sort (section_entries exclued_keywords (takeWhile non_title rest))) result)"
      by (rule lines_kept_update [OF "2.prems"(2)])
    moreover have "\<forall>item \<in> set (dropWhile non_title rest). strip item = item"
      using "2.prems"(3) by (auto dest: set_dropWhileD)
    ultimately show ?thesis
      using "2.prems"(1) False by (intro "2.IH" [OF False]) simp_all
  qed
qed

lemma sections_of_lookup:
  "sections_of items exclued_keywords result = Inr doc \<Longrightarrow>
   items = [] \<or> \<not> non_title (hd items) \<Longrightarrow> non_title name \<or> name \<notin> set items \<Longrightarrow>
   map_of doc name = map_of result name"
proof (induction items exclued_keywords result rule: sections_of.induct)
  case (1 exclued_keywords result)
  then show ?case by simp
next
  case (2 title rest exclued_keywords result)
  show ?case
  proof (cases "rest = []")
    case True
    with "2.prems" show ?thesis by simp
  next
    case False
    let ?rest = "dropWhile non_title rest"
    from "2.prems"(2,3) have neq: "name \<noteq> title" by auto
    have "?rest = [] \<or> \<not> non_title (hd ?rest)"
      using hd_dropWhile [of non_title rest] by auto
    moreover have "non_title name \<or> name \<notin> set ?rest"
      using "2.prems"(3) by (auto dest: set_dropWhileD)
    ultimately have "map_of doc name =
        map_of (AList.update title (sort (section_entries exclued_keywords (takeWhile non_title rest)))
          result) name"
      using "2.prems"(1) False by (intro "2.IH" [OF False]) simp_all
    with neq show ?thesis
      by (simp add: update_conv')
  qed
qed

lemma sections_of_reach:
  "sections_of (before @ title # rest) exclued_keywords result = Inr doc \<Longrightarrow>
   before = [] \<or> \<not> non_title (hd before) \<Longrightarrow> \<not> non_title title \<Longrightarrow>
   \<exists>result'. sections_of (title # rest) exclued_keywords result' = Inr doc"
proof (induction before arbitrary: result rule: length_induct)
  case (1 before)
  show ?case
  proof (cases before)
    case Nil
    with "1.prems" show ?thesis by auto
  next
    case (Cons b before')
    let ?tail = "before' @ title # rest"
    let ?next = "dropWhile non_title before'"
    have dw: "dropWhile non_title ?tail = ?next @ title # rest"
    proof (cases "\<forall>x \<in> set before'. non_title x")
      case True
      then have "?next = []" by simp
      with True "1.prems"(3) show ?thesis by (simp add: dropWhile_append2)
    next
      case False
      then show ?thesis by (auto simp add: dropWhile_append1)
    qed
    have shorter: "length ?next < length before"
      using length_dropWhile_le [of non_title before'] Cons by simp
    have head: "?next = [] \<or> \<not> non_title (hd ?next)"
      using hd_dropWhile [of non_title before'] by auto
    from "1.prems"(1) have "sections_of (?next @ title # rest) exclued_keywords
        (AList.update b (sort (section_entries exclued_keywords (takeWhile non_title ?tail))) result)
        = Inr doc"
      by (simp add: Cons dw)
    then show ?thesis
      using "1.IH" shorter head "1.prems"(3) by blast
  qed
qed


lemma dropWhile_before_title:
  "\<not> P title \<Longrightarrow>
   dropWhile P (before @ title # rest) = dropWhile P before @ title # rest"
proof (cases "\<forall>x \<in> set before. P x")
  case True
  assume "\<not> P title"
  with True show ?thesis by (simp add: dropWhile_append2)
next
  case False
  then show ?thesis by (auto simp add: dropWhile_append1)
qed

lemma sections_of_section:
  assumes run: "sections_of (before @ title # ls @ after) exclued_keywords result = Inr doc"
    and before: "before = [] \<or> \<not> non_title (hd before)"
    and title: "\<not> non_title title"
    and ls: "list_all non_title ls"
    and after: "title \<notin> set after"
    and l: "l \<in> set ls" "kept exclued_keywords l"
  shows "\<exists>entries. map_of doc title = Some entries \<and> Line (strip l) \<in> set entries"
proof -
  let ?entries = "sort (section_entries exclued_keywords (ls @ takeWhile non_title after))"
  let ?rest = "dropWhile non_title after"
  from sections_of_reach [OF run before title] obtain result' where
    "sections_of (title # ls @ after) exclued_keywords result' = Inr doc" ..
  moreover from l(1) have "ls @ after \<noteq> []" by auto
  moreover from ls have "takeWhile non_title (ls @ after) = ls @ takeWhile non_title after"
    and "dropWhile non_title (ls @ after) = ?rest"
    by (simp_all add: list_all_iff takeWhile_append2 dropWhile_append2)
  ultimately have rest: "sections_of ?rest exclued_keywords (AList.update title ?entries result') = Inr doc"
    by (auto split: if_splits)
  have "?rest = [] \<or> \<not> non_title (hd ?rest)"
    using hd_dropWhile [of non_title after] by auto
  moreover have "non_title title \<or> title \<notin> set ?rest"
    using after by (auto dest: set_dropWhileD)
  ultimately have "map_of doc title = map_of (AList.update title ?entries result') title"
    by (rule sections_of_lookup [OF rest])
  then have "map_of doc title = Some ?entries"
    by (simp add: update_conv')
  moreover from l have "Line (strip l) \<in> set ?entries"
    by (simp add: section_entries_def)
  ultimately show ?thesis by blast
qed

lemma non_title_Columns: "non_title ''Columns:''"
  by (simp add: non_title_def section_title_list_def)

text \<open>
  C3, as amended. Whenever the normalizer returns a document: no line in any of its lists
  contains an excluded substring; every column row (an item after the skipped header items and
  before the first section title) is in the list of \<^verbatim>\<open>'Columns:'\<close>, split on pipes with its
  fields trimmed, whatever it contains; and under a section title that does not occur again
  later in the text, every item of the section that contains no excluded substring is in the
  list of that title. The exclusion test is made in the section loop only.
\<close>

theorem format_raw_schema_exclusion:
  assumes "format_raw_schema raw_schema exclued_keywords = Inr doc"
  shows "(\<forall>(name, entries) \<in> set doc. \<forall>l. Line l \<in> set entries \<longrightarrow>
            kept (keyword_list exclued_keywords) l)
    \<and> (\<forall>index c. skip_header (split_items raw_schema) = Inr index \<longrightarrow>
          c \<in> set (takeWhile non_title (drop index (split_items raw_schema))) \<longrightarrow>
          (\<exists>entries. map_of doc ''Columns:'' = Some entries \<and> column_entry c \<in> set entries))
    \<and> (\<forall>index before title ls after l.
          skip_header (split_items raw_schema) = Inr index \<longrightarrow>
          split_items raw_schema = before @ title # ls @ after \<longrightarrow> index \<le> length before \<longrightarrow>
          \<not> non_title title \<longrightarrow> list_all non_title ls \<longrightarrow> title \<notin> set after \<longrightarrow>
          l \<in> set ls \<longrightarrow> kept (keyword_list exclued_keywords) l \<longrightarrow>
          (\<exists>entries. map_of doc title = Some entries \<and> Line l \<in> set entries))"
proof -
  let ?items = "split_items raw_schema"
  let ?excl = "keyword_list exclued_keywords"
  from assms obtain index where sh: "skip_header ?items = Inr index"
    and doc: "sections_of (dropWhile non_title (drop index ?items)) ?excl
       [(''Columns:'', sort (map column_entry (takeWhile non_title (drop index ?items))))] = Inr doc"
    by (auto simp add: format_raw_schema_def format_items_eq split: sum.splits if_splits)
  let ?result = "[(''Columns:'', sort (map column_entry (takeWhile non_title (drop index ?items))))]"
  let ?sections = "dropWhile non_title (drop index ?items)"
  have head: "?sections = [] \<or> \<not> non_title (hd ?sections)"
    using hd_dropWhile [of non_title "drop index ?items"] by auto
  have stripped: "\<forall>item \<in> set ?sections. strip item = item"
    by (auto dest!: set_dropWhileD in_set_dropD split_items_stripped)
  have "lines_kept ?excl ?result"
    by (auto simp add: lines_kept_def column_entry_def)
  with doc have "lines_kept ?excl doc"
    using stripped by (rule sections_of_lines_kept)
  then have a: "\<forall>(name, entries) \<in> set doc. \<forall>l. Line l \<in> set entries \<longrightarrow> kept ?excl l"
    by (simp add: lines_kept_def)
  have "map_of doc ''Columns:'' = map_of ?result ''Columns:''"
    using doc head non_title_Columns by (intro sections_of_lookup) auto
  then have b: "\<forall>index' c. skip_header ?items = Inr index' \<longrightarrow>
      c \<in> set (takeWhile non_title (drop index' ?items)) \<longrightarrow>
      (\<exists>entries. map_of doc ''Columns:'' = Some entries \<and> column_entry c \<in> set entries)"
    using sh by auto
  have c: "\<exists>entries. map_of doc title = Some entries \<and> Line l \<in> set entries"
    if "skip_header ?items = Inr index'" and split: "?items = before @ title # ls @ after"
      and le: "index' \<le> length before" and title: "\<not> non_title title"
      and ls: "list_all non_title ls" and after: "title \<notin> set after"
      and l: "l \<in> set ls" "kept ?excl l"
    for index' before title ls after l
  proof -
    from that(1) sh have "index' = index" by simp
    with le split have "drop index ?items = drop index before @ title # ls @ after"
      by simp
    then have sections: "?sections = dropWhile non_title (drop index before) @ title # ls @ after"
      using title by (simp add: dropWhile_before_title)
    have "dropWhile non_title (drop index before) = []
        \<or> \<not> non_title (hd (dropWhile non_title (drop index before)))"
      using hd_dropWhile [of non_title "drop index before"] by auto
    with doc [unfolded sections]
    have "\<exists>entries. map_of doc title = Some entries \<and> Line (strip l) \<in> set entries"
      using title ls after l by (rule sections_of_section)
    moreover from l(1) split have "strip l = l"
      by (intro split_items_stripped [of _ raw_schema]) simp
    ultimately show ?thesis by simp
  qed
  from a b c show ?thesis by blast
qed


text \<open>
  The theorem at a text with one column row and three index lines, one of them excluded.
\<close>

theorem format_raw_schema_exclusion_witness:
  "format_raw_schema (''b | int'' @ [CHR 0x0A] @ ''Indexes:'' @ [CHR 0x0A] @ ''  z'' @ [CHR 0x0A]
       @ ''  bucardo y'' @ [CHR 0x0A] @ ''  c'') (Some [''bucardo''])
     = Inr [(''Columns:'', [Fields [''b'', ''int'']]), (''Indexes:'', [Line ''c'', Line ''z''])]
   \<and> kept (keyword_list (Some [''bucardo''])) ''c''
   \<and> (\<exists>entries. map_of [(''Columns:'', [Fields [''b'', ''int'']]),
                             (''Indexes:'', [Line ''c'', Line ''z''])] ''Columns:'' = Some entries
          \<and> column_entry ''b | int'' \<in> set entries)
   \<and> (\<exists>entries. map_of [(''Columns:'', [Fields [''b'', ''int'']]),
                             (''Indexes:'', [Line ''c'', Line ''z''])] ''Indexes:'' = Some entries
          \<and> Line ''z'' \<in> set entries)"
proof -
  let ?raw = "''b | int'' @ [CHR 0x0A] @ ''Indexes:'' @ [CHR 0x0A] @ ''  z'' @ [CHR 0x0A]
       @ ''  bucardo y'' @ [CHR 0x0A] @ ''  c''"
  let ?doc = "[(''Columns:'', [Fields [''b'', ''int'']]), (''Indexes:'', [Line ''c'', Line ''z''])]"
  have run: "format_raw_schema ?raw (Some [''bucardo'']) = Inr ?doc"
    by code_simp
  note all = format_raw_schema_exclusion [OF run]
  have sh: "skip_header (split_items ?raw) = Inr 0"
    by code_simp
  have items: "split_items ?raw = [''b | int''] @ ''Indexes:'' # [''z'', ''bucardo y'', ''c''] @ []"
    by code_simp
  have col: "''b | int'' \<in> set (takeWhile non_title (drop 0 (split_items ?raw)))"
    by code_simp
  have title: "\<not> non_title ''Indexes:''" and ls: "list_all non_title [''z'', ''bucardo y'', ''c'']"
    and z: "kept (keyword_list (Some [''bucardo''])) ''z''"
    by code_simp+
  from all have a: "kept (keyword_list (Some [''bucardo''])) ''c''"
    by simp
  note b = all [THEN conjunct2, THEN conjunct1, rule_format, OF sh col]
  have c: "\<exists>entries. map_of ?doc ''Indexes:'' = Some entries \<and> Line ''z'' \<in> set entries"
    by (rule all [THEN conjunct2, THEN conjunct2, rule_format, OF sh items _ title ls _ _ z]) simp_all
  from run a b c show ?thesis
    by (intro conjI)
qed

text \<open>
  C3 as stated fails: a column row that contains an excluded substring is in the document.
\<close>

theorem format_raw_schema_exclusion_counterexample:
  "contains ''bucardo'' ''bucardo_id | integer''
   \<and> format_raw_schema ''bucardo_id | integer'' (Some [''bucardo'']) =
       Inr [(''Columns:'', [Fields [''bucardo_id'', ''integer'']])]"
  by code_simp

section \<open>Properties of the entry points\<close>

text \<open>
  C10: for a fixed world, and so for fixed loaded table data, \<^verbatim>\<open>DBDiffBase.diff\<close> returns
  the same diff with \<^verbatim>\<open>verbose=True\<close> and with \<^verbatim>\<open>verbose=False\<close>. The flag changes only what
  is printed (see \<open>diff_verbose_prints\<close>).
\<close>

theorem diff_verbose_independent:
  "snd (diff w self target True) = snd (diff w self target False)"
  by (simp add: diff_def Let_def split: prod.splits)

lemma diff_verbose_prints:
  "fst (diff w self target True) =
     fst (diff w self target False) @
       [Print_document ''Source: '' (table_data (fst (snd (load w self)))), Print [],
        Print_document ''Target: '' (table_data (fst (snd (load w target))))]"
  by (simp add: diff_def Let_def split: prod.splits)

text \<open>
  C9: when the category of the arguments is a string that is none of the eight category
  names, \<^verbatim>\<open>main\<close> ends in the \<^verbatim>\<open>exit\<close> of \<^verbatim>\<open>_validate\<close> and nothing has happened before it: no
  connection was tried and nothing was printed. (With valid arguments the first event is a
  connection: \<open>main_valid_connects\<close>.)
\<close>

theorem main_rejects_unknown_type:
  assumes "arg_type args = PStr t" and "t \<notin> set diff_types"
  shows "main w args = ([], SystemExit ''Validation error, please check:'')"
  using assms by (simp add: main_def validate_def)

text \<open>The theorem at the category \<^verbatim>\<open>table_rows\<close>.\<close>

theorem main_rejects_unknown_type_witness:
  "main example_world
     \<lparr>arg_type = PStr ''table_rows'', arg_source = PStr ''host=a dbname=b'', arg_target = PNone,
      arg_version = PBool False, arg_verbose = PBool False, arg_help = PBool False\<rparr>
   = ([], SystemExit ''Validation error, please check:'')"
  by (rule main_rejects_unknown_type [where t = "''table_rows''"]) (simp_all add: diff_types_def)

lemma load_connects: "\<exists>events. fst (load w self) = Connect (dsn self) # events"
  by (simp add: load_def create_conn_def split: option.splits prod.splits)

lemma main_valid_connects:
  assumes "validate args = Inr args"
  shows "\<exists>d events. fst (main w args) = Connect d # events"
proof -
  from assms obtain t where t: "arg_type args = PStr t" "t \<in> set diff_types"
    by (auto simp add: validate_def split: if_splits py_value.splits)
  then obtain c where c: "map_of DiffClassMapper t = Some c"
    by (auto simp add: diff_types_def DiffClassMapper_def)
  let ?src = "init w c (str_of (arg_source args))"
  obtain e1 where e1: "fst (load w ?src) = Connect (dsn ?src) # e1"
    using load_connects by blast
  show ?thesis
    using assms t c e1
    by (auto simp add: main_def diff_or_info_def diff_def Let_def split: prod.splits option.splits)
qed

lemma py_format_total: "py_format ''Total {}: {}'' [name] = Inl IndexError"
  by simp

lemma info_never_returns: "snd (info w diff_type verbose data) \<noteq> Returned"
  by (auto simp add: info_def Let_def py_format_total split: sum.splits prod.splits)

lemma info_not_Returned: "info w diff_type verbose data = (printed, result) \<Longrightarrow> result \<noteq> Returned"
  using info_never_returns [of w diff_type verbose data] by simp

lemma diff_or_info_without_target_fails:
  "snd (diff_or_info w source None diff_type verbose) \<noteq> Returned"
  by (auto simp add: diff_or_info_def Let_def split: option.splits prod.splits
      dest: info_not_Returned)

text \<open>
  C6: without a target \<^verbatim>\<open>diff_or_info\<close> runs the extractor once and then fails instead of
  printing the total. For the category \<^verbatim>\<open>row_count\<close> and the tables \<^verbatim>\<open>users\<close> (10 rows) and
  \<^verbatim>\<open>orders\<close> (5 rows) the total is the string that \<^verbatim>\<open>count_format\<close> returns, and it is passed
  to \<^verbatim>\<open>replace\<close> as its count: a TypeError. No category returns (see
  \<open>diff_or_info_without_target_fails\<close>): where the total is still an integer, \<^verbatim>\<open>format\<close>
  has two fields and one argument.
\<close>

theorem diff_or_info_row_count_fails:
  "diff_or_info example_world ''host=a dbname=b'' None ''row_count'' False =
     ([Connect ''host=a dbname=b''], Raised TypeError)"
  by code_simp

section \<open>Properties of the helper routines\<close>

lemma load_row_count_drops_helper:
  "\<not> cursor_fails \<Longrightarrow> \<not> fails REMOVE_ROW_COUNT_FUNC_SQL \<Longrightarrow>
   (''count_rows'', [''text'', ''text'']) \<notin>
     set (fst (load_row_count cursor_fails fails rows routines data))"
  by (auto simp add: load_row_count_def load_with_helper_def execute_def
      REMOVE_ROW_COUNT_FUNC_SQL_def split: sum.splits prod.splits)

lemma load_sequence_count_keeps_helper:
  "\<not> cursor_fails \<Longrightarrow> \<not> fails CREATE_GET_SEQUENCE_LAST_VALUE_FUNC_SQL \<Longrightarrow>
   (''get_seq_last_value'', [''text'']) \<in>
     set (fst (load_sequence_count cursor_fails fails rows routines data))"
  by (auto simp add: load_sequence_count_def load_with_helper_def execute_def
      CREATE_GET_SEQUENCE_LAST_VALUE_FUNC_SQL_def REMOVE_GET_SEQUENCE_LAST_VALUE_FUNC_SQL_def
      SEQUENCE_COUNT_SQL_def split: sum.splits prod.splits)

text \<open>
  C4: the sequence extractor leaves its helper routine on the server. It creates
  \<open>get_seq_last_value(text)\<close> and drops \<open>get_seq_last_value(text, text)\<close>, which does not
  exist, so on a run in which every statement succeeds the routine is still there when the
  method returns. The row count extractor drops the routine it created
  (\<open>load_row_count_drops_helper\<close>).
\<close>

theorem load_sequence_count_leaves_helper:
  "load_sequence_count False (\<lambda>s. False) [(''orders_id_seq'', PInt 7)] [] [] =
     ([(''get_seq_last_value'', [''text''])], [(''orders_id_seq'', PInt 7)], Returned)"
  by code_simp

section \<open>Properties of the structural diff\<close>

lemma distinct_fill_table_data:
  "distinct (map fst data) \<Longrightarrow> distinct (map fst (fill_table_data rows data))"
  by (induction rows data rule: fill_table_data.induct) (simp_all add: distinct_update)

lemma distinct_load_table_schema:
  "distinct (map fst data) \<Longrightarrow> distinct (map fst (fst (load_table_schema w d tables data)))"
  by (induction w d tables data rule: load_table_schema.induct)
    (simp_all add: distinct_update split: sum.splits)

lemma distinct_loaded:
  assumes "distinct (map fst (table_data self))"
  shows "distinct (map fst (loaded w self))"
proof -
  have "distinct (map fst (fst (load_rows w self)))"
    using assms by (simp add: load_rows_def distinct_fill_table_data split: sum.splits)
  then show ?thesis
    using assms distinct_load_table_schema [of "fst (load_rows w self)" w "dsn self"
        "map fst (fst (load_rows w self))"]
    by (auto simp add: loaded_def load_def split: prod.splits option.splits)
qed

lemma map_of_Some_key: "map_of a k = Some v \<Longrightarrow> k \<in> fst ` set a"
  by (metis map_of_eq_None_iff option.distinct(1))

lemma key_map_of_Some: "k \<in> fst ` set a \<Longrightarrow> \<exists>v. map_of a k = Some v"
  by (metis map_of_eq_None_iff not_Some_eq)

lemma same_dict_iff: "same_dict a b \<longleftrightarrow> map_of a = map_of b"
proof
  assume "map_of a = map_of b"
  then show "same_dict a b" by (simp add: same_dict_def list_all_iff)
next
  assume s: "same_dict a b"
  show "map_of a = map_of b"
  proof
    fix k
    show "map_of a k = map_of b k"
    proof (cases "k \<in> fst ` set a \<or> k \<in> fst ` set b")
      case True
      with s show ?thesis by (auto simp add: same_dict_def list_all_iff)
    next
      case False
      then have "map_of a k = None" and "map_of b k = None"
        by (simp_all add: map_of_eq_None_iff)
      then show ?thesis by simp
    qed
  qed
qed

lemma deep_equal_iff: "deep_equal v v' \<longleftrightarrow> value_equal v v'"
  by (cases v; cases v') (simp_all add: same_dict_iff)

lemma value_equal_refl: "value_equal v v"
  by (cases v) simp_all

lemma deep_diff_empty_iff: "is_empty_report (deep_diff a b) \<longleftrightarrow> documents_equal a b"
proof
  assume e: "is_empty_report (deep_diff a b)"
  show "documents_equal a b"
    unfolding documents_equal_def
  proof
    fix k
    from e have r: "k \<in> fst ` set a \<Longrightarrow> map_of b k \<noteq> None"
      and a: "k \<in> fst ` set b \<Longrightarrow> map_of a k \<noteq> None"
      and c: "k \<in> fst ` set a \<Longrightarrow> \<not> differs a b k"
      by (auto simp add: is_empty_report_def deep_diff_def filter_empty_conv)
    show "rel_option value_equal (map_of a k) (map_of b k)"
    proof (cases "map_of a k")
      case None
      with a have "map_of b k = None"
        by (cases "map_of b k") (auto dest: map_of_Some_key)
      with None show ?thesis by simp
    next
      case (Some v)
      then have k: "k \<in> fst ` set a"
        by (rule map_of_Some_key)
      with r obtain v' where v': "map_of b k = Some v'" by auto
      with c [OF k] Some show ?thesis
        by (simp add: differs_def deep_equal_iff)
    qed
  qed
next
  assume d: "documents_equal a b"
  have rel: "rel_option value_equal (map_of a k) (map_of b k)" for k
    using d by (simp add: documents_equal_def)
  have "map_of b k \<noteq> None" if "k \<in> fst ` set a" for k
    using rel [of k] key_map_of_Some [OF that] by (cases "map_of b k") auto
  moreover have "map_of a k \<noteq> None" if "k \<in> fst ` set b" for k
    using rel [of k] key_map_of_Some [OF that] by (cases "map_of a k") auto
  moreover have "\<not> differs a b k" for k
    using rel [of k] by (cases "map_of a k"; cases "map_of b k") (auto simp add: differs_def deep_equal_iff)
  ultimately show "is_empty_report (deep_diff a b)"
    by (auto simp add: is_empty_report_def deep_diff_def filter_empty_conv)
qed

lemma documents_equal_refl: "documents_equal a a"
  by (simp add: documents_equal_def option.rel_refl value_equal_refl)

lemma filter_eq_single: "distinct xs \<Longrightarrow> k \<in> set xs \<Longrightarrow> filter (\<lambda>x. x = k) xs = [k]"
  by (induction xs) (auto simp add: filter_empty_conv)

lemma deep_diff_one_changed:
  assumes dist: "distinct (map fst a)"
    and v: "map_of a k = Some v" and b: "map_of b = (map_of a)(k \<mapsto> v')"
    and neq: "\<not> value_equal v v'"
  shows "deep_diff a b = \<lparr>removed = [], added = [], changed = [k]\<rparr>"
proof -
  from v have k: "k \<in> set (map fst a)"
    by (auto dest: map_of_Some_key)
  have "map_of b x \<noteq> None" if "x \<in> fst ` set a" for x
    using key_map_of_Some [OF that] b by auto
  then have 1: "filter (\<lambda>k. map_of b k = None) (map fst a) = []"
    by (auto simp add: filter_empty_conv)
  have "map_of a x \<noteq> None" if "x \<in> fst ` set b" for x
  proof -
    from that have "map_of b x \<noteq> None" by (simp add: map_of_eq_None_iff)
    with b v show ?thesis by (auto split: if_splits)
  qed
  then have 2: "filter (\<lambda>k. map_of a k = None) (map fst b) = []"
    by (auto simp add: filter_empty_conv)
  have "differs a b x \<longleftrightarrow> x = k" if "x \<in> set (map fst a)" for x
  proof -
    from that obtain u where "map_of a x = Some u"
      using key_map_of_Some [of x a] by auto
    with v b neq show ?thesis
      by (auto simp add: differs_def deep_equal_iff value_equal_refl)
  qed
  then have "filter (differs a b) (map fst a) = filter (\<lambda>x. x = k) (map fst a)"
    by (intro filter_cong) auto
  with dist k have 3: "filter (differs a b) (map fst a) = [k]"
    by (simp add: filter_eq_single)
  from 1 2 3 show ?thesis
    by (simp add: deep_diff_def)
qed

lemma diff_result: "snd (diff w self target verbose) = DeepDiff w (loaded w self) (loaded w target)"
  by (simp add: diff_def loaded_def Let_def split: prod.splits)

text \<open>
  C1: the diff that \<^verbatim>\<open>DBDiffBase.diff\<close> returns for two fresh objects is empty if and only if
  the two loaded Documents are deeply equal; it is empty when the Documents are identical; and
  when the target Document is the source Document with another value under one key, the diff
  reports that key as changed and nothing else.
\<close>

theorem diff_empty_iff_equal:
  assumes "DeepDiff w = deep_diff"
    and "table_data self = []" and "table_data target = []"
  shows "(is_empty_report (snd (diff w self target verbose)) \<longleftrightarrow>
            documents_equal (loaded w self) (loaded w target))
    \<and> (loaded w self = loaded w target \<longrightarrow> is_empty_report (snd (diff w self target verbose)))
    \<and> (\<forall>k v v'. map_of (loaded w self) k = Some v \<longrightarrow>
          map_of (loaded w target) = (map_of (loaded w self))(k \<mapsto> v') \<longrightarrow>
          \<not> value_equal v v' \<longrightarrow>
          snd (diff w self target verbose) = \<lparr>removed = [], added = [], changed = [k]\<rparr>)"
proof -
  have r: "snd (diff w self target verbose) = deep_diff (loaded w self) (loaded w target)"
    by (simp add: diff_result assms(1))
  have dist: "distinct (map fst (loaded w self))"
    by (rule distinct_loaded) (simp add: assms(2))
  show ?thesis
    unfolding r
    using documents_equal_refl [of "loaded w target"] deep_diff_one_changed [OF dist]
    by (auto simp add: deep_diff_empty_iff)
qed

text \<open>The theorem at the source and the target of the example world.\<close>

theorem diff_empty_iff_equal_witness:
  "snd (diff compare_world (init compare_world DBTableRowCountDiff ''source'')
          (init compare_world DBTableRowCountDiff ''target'') False) =
     \<lparr>removed = [], added = [], changed = [''orders'']\<rparr>
   \<and> \<not> documents_equal (loaded compare_world (init compare_world DBTableRowCountDiff ''source''))
          (loaded compare_world (init compare_world DBTableRowCountDiff ''target''))
   \<and> is_empty_report
        (snd (diff compare_world (init compare_world DBTableRowCountDiff ''source'')
                (init compare_world DBTableRowCountDiff ''source'') False))"
proof -
  let ?S = "init compare_world DBTableRowCountDiff ''source''"
  let ?T = "init compare_world DBTableRowCountDiff ''target''"
  have w: "DeepDiff compare_world = deep_diff"
    by (simp add: compare_world_def)
  have fresh: "table_data ?S = []" "table_data ?T = []"
    by (simp_all add: init_def)
  have S: "loaded compare_world ?S = [(''users'', PInt 10), (''orders'', PInt 5)]"
    by code_simp
  have T: "loaded compare_world ?T = [(''users'', PInt 10), (''orders'', PInt 6)]"
    by code_simp
  note ST = diff_empty_iff_equal [OF w fresh(1) fresh(2), of False]
  note SS = diff_empty_iff_equal [OF w fresh(1) fresh(1), of False]
  have "map_of (loaded compare_world ?S) ''orders'' = Some (PInt 5)"
    by (simp add: S)
  moreover have "map_of (loaded compare_world ?T) =
      (map_of (loaded compare_world ?S))(''orders'' \<mapsto> PInt 6)"
    by (auto simp add: S T)
  moreover have "\<not> value_equal (PInt 5) (PInt 6)"
    by simp
  ultimately have 1: "snd (diff compare_world ?S ?T False) =
      \<lparr>removed = [], added = [], changed = [''orders'']\<rparr>"
    using ST by blast
  then have "\<not> is_empty_report (snd (diff compare_world ?S ?T False))"
    by (simp add: is_empty_report_def)
  with ST have 2: "\<not> documents_equal (loaded compare_world ?S) (loaded compare_world ?T)"
    by blast
  from SS have 3: "is_empty_report (snd (diff compare_world ?S ?S False))"
    by blast
  from 1 2 3 show ?thesis
    by (intro conjI)
qed

text \<open>
  C7: the diff reports as removed exactly the keys of the source Document that the target
  Document lacks, and as added exactly the keys of the target Document that the source
  Document lacks; there are as many removed and added entries as such keys.
\<close>

theorem diff_key_sets:
  assumes "DeepDiff w = deep_diff"
    and "table_data self = []" and "table_data target = []"
  shows "set (removed (snd (diff w self target verbose))) =
           fst ` set (loaded w self) - fst ` set (loaded w target)
    \<and> set (added (snd (diff w self target verbose))) =
           fst ` set (loaded w target) - fst ` set (loaded w self)
    \<and> length (removed (snd (diff w self target verbose))) =
           card (fst ` set (loaded w self) - fst ` set (loaded w target))
    \<and> length (added (snd (diff w self target verbose))) =
           card (fst ` set (loaded w target) - fst ` set (loaded w self))"
proof -
  let ?A = "loaded w self" and ?B = "loaded w target"
  have r: "snd (diff w self target verbose) = deep_diff ?A ?B"
    by (simp add: diff_result assms(1))
  have dA: "distinct (map fst ?A)" and dB: "distinct (map fst ?B)"
    by (rule distinct_loaded, simp add: assms)+
  have sr: "set (removed (deep_diff ?A ?B)) = fst ` set ?A - fst ` set ?B"
    by (auto simp add: deep_diff_def map_of_eq_None_iff)
  have sa: "set (added (deep_diff ?A ?B)) = fst ` set ?B - fst ` set ?A"
    by (auto simp add: deep_diff_def map_of_eq_None_iff)
  have "distinct (removed (deep_diff ?A ?B))" and "distinct (added (deep_diff ?A ?B))"
    using dA dB by (simp_all add: deep_diff_def)
  then have "length (removed (deep_diff ?A ?B)) = card (set (removed (deep_diff ?A ?B)))"
    and "length (added (deep_diff ?A ?B)) = card (set (added (deep_diff ?A ?B)))"
    by (simp_all add: distinct_card)
  with sr sa show ?thesis
    unfolding r by simp
qed

text \<open>The theorem at the source and the replica of the example world.\<close>

theorem diff_key_sets_witness:
  "snd (diff compare_world (init compare_world DBTableRowCountDiff ''source'')
          (init compare_world DBTableRowCountDiff ''replica'') False) =
     \<lparr>removed = [], added = [''audit''], changed = [''orders'']\<rparr>
   \<and> fst ` set (loaded compare_world (init compare_world DBTableRowCountDiff ''replica''))
       - fst ` set (loaded compare_world (init compare_world DBTableRowCountDiff ''source''))
       = {''audit''}
   \<and> card (fst ` set (loaded compare_world (init compare_world DBTableRowCountDiff ''replica''))
       - fst ` set (loaded compare_world (init compare_world DBTableRowCountDiff ''source''))) = 1"
proof -
  let ?S = "init compare_world DBTableRowCountDiff ''source''"
  let ?R = "init compare_world DBTableRowCountDiff ''replica''"
  have w: "DeepDiff compare_world = deep_diff"
    by (simp add: compare_world_def)
  have fresh: "table_data ?S = []" "table_data ?R = []"
    by (simp_all add: init_def)
  have run: "snd (diff compare_world ?S ?R False) =
      \<lparr>removed = [], added = [''audit''], changed = [''orders'']\<rparr>"
    by code_simp
  note keys = diff_key_sets [OF w fresh(1) fresh(2), of False, unfolded run]
  from keys have "fst ` set (loaded compare_world ?R) - fst ` set (loaded compare_world ?S)
      = {''audit''}"
    by simp
  moreover from keys have "card (fst ` set (loaded compare_world ?R)
      - fst ` set (loaded compare_world ?S)) = 1"
    by simp
  ultimately show ?thesis
    using run by (intro conjI)
qed

end
